theory Spec2Isabelle
  imports Main "HOL-Library.Word"
begin

section \<open>Concurrent task limiter (util/concurrent_task_limiter_impl.cc)\<close>

text \<open>
  The limiter keeps two \<^verbatim>\<open>std::atomic<int32_t>\<close> counters.  They are modelled as
  32-bit words read as two's complement (\<open>sint\<close>, \<open><s\<close>).  The model is the
  sequential one: a single thread runs each operation to its end, so the only way
  \<open>compare_exchange_weak\<close> fails is the spurious failure the C++ standard allows;
  the schedule of spurious failures is an argument of the operation.
\<close>

type_synonym int32 = "32 word"

record ConcurrentTaskLimiterImpl =
  name :: string
  max_outstanding_tasks :: int32
  outstanding_tasks :: int32

text \<open>The constructor: \<open>outstanding_tasks_{0}\<close>.\<close>

definition NewConcurrentTaskLimiter :: "string \<Rightarrow> int32 \<Rightarrow> ConcurrentTaskLimiterImpl" where
  "NewConcurrentTaskLimiter nm limit =
     \<lparr>name = nm, max_outstanding_tasks = limit, outstanding_tasks = 0\<rparr>"

definition GetName :: "ConcurrentTaskLimiterImpl \<Rightarrow> string" where
  "GetName l = name l"

definition SetMaxOutstandingTask :: "ConcurrentTaskLimiterImpl \<Rightarrow> int32 \<Rightarrow> ConcurrentTaskLimiterImpl" where
  "SetMaxOutstandingTask l limit = l\<lparr>max_outstanding_tasks := limit\<rparr>"

definition ResetMaxOutstandingTask :: "ConcurrentTaskLimiterImpl \<Rightarrow> ConcurrentTaskLimiterImpl" where
  "ResetMaxOutstandingTask l = l\<lparr>max_outstanding_tasks := - 1\<rparr>"

definition GetOutstandingTask :: "ConcurrentTaskLimiterImpl \<Rightarrow> int32" where
  "GetOutstandingTask l = outstanding_tasks l"

text \<open>
  \<open>a.compare_exchange_weak(expected, desired)\<close> on the memory cell \<open>mem\<close>: the result is
  (success, new memory, new expected).  On failure \<open>expected\<close> is reloaded from memory.
\<close>

definition compare_exchange_weak :: "bool \<Rightarrow> int32 \<Rightarrow> int32 \<Rightarrow> int32 \<Rightarrow> bool \<times> int32 \<times> int32" where
  "compare_exchange_weak spurious mem expected desired =
     (if mem = expected \<and> \<not> spurious then (True, desired, expected) else (False, mem, mem))"

text \<open>A token only holds the back pointer to its limiter; the limiter's name stands for it.\<close>

datatype TaskLimiterToken = TaskLimiterToken string

text \<open>
  The \<open>while\<close> loop of \<open>GetToken\<close>.  \<open>sp\<close> lists, attempt by attempt, whether the
  compare-exchange fails spuriously; once the list is used up no attempt does.
\<close>

function GetToken_loop ::
  "bool \<Rightarrow> int32 \<Rightarrow> int32 \<Rightarrow> bool list \<Rightarrow> ConcurrentTaskLimiterImpl
     \<Rightarrow> TaskLimiterToken option \<times> ConcurrentTaskLimiterImpl" where
  "GetToken_loop force limit tasks sp l =
     (if force \<or> limit <s 0 \<or> tasks <s limit then
        (let r = compare_exchange_weak (sp \<noteq> [] \<and> hd sp) (outstanding_tasks l) tasks (tasks + 1)
         in if fst r then (Some (TaskLimiterToken (name l)), l\<lparr>outstanding_tasks := fst (snd r)\<rparr>)
            else GetToken_loop force limit (snd (snd r)) (tl sp) l)
      else (None, l))"
  by pat_completeness auto
termination
  by (relation "measure (\<lambda>(force, limit, tasks, sp, l).
        2 * length sp + (if outstanding_tasks l = tasks then 0 else 1))")
     (auto simp: compare_exchange_weak_def split: if_splits)

declare GetToken_loop.simps [simp del]

definition GetToken ::
  "ConcurrentTaskLimiterImpl \<Rightarrow> bool \<Rightarrow> bool list
     \<Rightarrow> TaskLimiterToken option \<times> ConcurrentTaskLimiterImpl" where
  "GetToken l force sp =
     GetToken_loop force (max_outstanding_tasks l) (outstanding_tasks l) sp l"

text \<open>
  A limiter together with the number of tokens that are alive.  The operations of a client
  are the steps of a run; a step that trips an \<open>assert\<close> of the source, that overflows
  the signed counter (undefined behaviour in C++), or that uses an object that does not
  exist, ends the run with an error.
\<close>

record limiter_system =
  limiter :: ConcurrentTaskLimiterImpl
  live_tokens :: nat
  destroyed :: bool

datatype limiter_op =
    OpGetToken bool "bool list"
  | OpDestroyToken
  | OpSetMaxOutstandingTask int32
  | OpResetMaxOutstandingTask
  | OpDestroyLimiter

datatype limiter_error =
    AssertOutstandingNonNegative
  | AssertOutstandingZero
  | SignedOverflow
  | NoSuchToken
  | UseAfterDestroy

definition limiter_start :: "string \<Rightarrow> int32 \<Rightarrow> limiter_system" where
  "limiter_start nm limit =
     \<lparr>limiter = NewConcurrentTaskLimiter nm limit, live_tokens = 0, destroyed = False\<rparr>"

text \<open>\<open>~TaskLimiterToken\<close>: decrement, then \<open>assert(limiter_->outstanding_tasks_ >= 0)\<close>.\<close>

definition TaskLimiterToken_destroy ::
  "ConcurrentTaskLimiterImpl \<Rightarrow> limiter_error + ConcurrentTaskLimiterImpl" where
  "TaskLimiterToken_destroy l =
     (let l' = l\<lparr>outstanding_tasks := outstanding_tasks l - 1\<rparr>
      in if 0 \<le>s outstanding_tasks l' then Inr l' else Inl AssertOutstandingNonNegative)"

text \<open>\<open>~ConcurrentTaskLimiterImpl\<close>: \<open>assert(outstanding_tasks_ == 0)\<close>.\<close>

definition ConcurrentTaskLimiterImpl_destroy ::
  "ConcurrentTaskLimiterImpl \<Rightarrow> limiter_error + unit" where
  "ConcurrentTaskLimiterImpl_destroy l =
     (if outstanding_tasks l = 0 then Inr () else Inl AssertOutstandingZero)"

fun limiter_step :: "limiter_system \<Rightarrow> limiter_op \<Rightarrow> limiter_error + limiter_system" where
  "limiter_step s (OpGetToken force sp) =
     (if destroyed s then Inl UseAfterDestroy
      else case GetToken (limiter s) force sp of
        (None, l') \<Rightarrow> Inr (s\<lparr>limiter := l'\<rparr>)
      | (Some t, l') \<Rightarrow>
          if outstanding_tasks (limiter s) = 0x7FFFFFFF then Inl SignedOverflow
          else Inr (s\<lparr>limiter := l', live_tokens := Suc (live_tokens s)\<rparr>))"
| "limiter_step s OpDestroyToken =
     (if destroyed s then Inl UseAfterDestroy
      else if live_tokens s = 0 then Inl NoSuchToken
      else case TaskLimiterToken_destroy (limiter s) of
        Inl e \<Rightarrow> Inl e
      | Inr l' \<Rightarrow> Inr (s\<lparr>limiter := l', live_tokens := live_tokens s - 1\<rparr>))"
| "limiter_step s (OpSetMaxOutstandingTask limit) =
     (if destroyed s then Inl UseAfterDestroy
      else Inr (s\<lparr>limiter := SetMaxOutstandingTask (limiter s) limit\<rparr>))"
| "limiter_step s OpResetMaxOutstandingTask =
     (if destroyed s then Inl UseAfterDestroy
      else Inr (s\<lparr>limiter := ResetMaxOutstandingTask (limiter s)\<rparr>))"
| "limiter_step s OpDestroyLimiter =
     (if destroyed s then Inl UseAfterDestroy
      else case ConcurrentTaskLimiterImpl_destroy (limiter s) of
        Inl e \<Rightarrow> Inl e
      | Inr _ \<Rightarrow> Inr (s\<lparr>destroyed := True\<rparr>))"

fun limiter_run :: "limiter_system \<Rightarrow> limiter_op list \<Rightarrow> limiter_error + limiter_system" where
  "limiter_run s [] = Inr s"
| "limiter_run s (x # xs) =
     (case limiter_step s x of Inl e \<Rightarrow> Inl e | Inr s' \<Rightarrow> limiter_run s' xs)"

text \<open>
  The invariant of a run: the counter is the number of live tokens, the number of live
  tokens fits the signed counter, and a destroyed limiter has counter zero.
\<close>

definition limiter_inv :: "limiter_system \<Rightarrow> bool" where
  "limiter_inv s \<longleftrightarrow>
     outstanding_tasks (limiter s) = of_nat (live_tokens s) \<and> live_tokens s < 2 ^ 31 \<and>
     (destroyed s \<longrightarrow> outstanding_tasks (limiter s) = 0)"

section \<open>The write path (db/db_impl/db_impl_write.cc): data\<close>

text \<open>
  The write path calls into classes whose sources are not part of the repository files
  under study (\<open>Status\<close>, \<open>WriteBatch\<close>, \<open>WriteThread::Writer\<close>, \<open>VersionSet\<close>,
  \<open>WriteController\<close>, \<open>ErrorHandler\<close>, the log writer, the memtables).  Their data is
  modelled by the records below.  Whatever they compute from state the write path does not
  own (an I/O result, what a user callback returns, what the write controller says, the
  clock) is an input of the model, collected in the record \<open>Env\<close>.  Statistics, perf
  timers, sync points and info logging influence nothing else and are left out, and so are
  the out-parameters \<open>log_used\<close> and \<open>seq_used\<close>, which only copy fields of the caller's
  \<open>Writer\<close>: the model returns the writers themselves.
\<close>

type_synonym uint64 = "64 word"
type_synonym SequenceNumber = "64 word"

text \<open>
  Modelled from the spec: \<open>rocksdb/status.h\<close> is missing.  Section 7 of the spec lists
  the error kinds; a status is a code, a subcode (\<open>IOFenced\<close> is one) and a message.
\<close>

datatype Code =
    kOk | kNotFound | kCorruption | kNotSupported | kInvalidArgument | kIOError
  | kMergeInProgress | kIncomplete | kShutdownInProgress | kTimedOut | kAborted | kBusy
  | kExpired | kTryAgain

datatype SubCode = kNone | kNoSpace | kIOFenced

record Status =
  code :: Code
  subcode :: SubCode
  msg :: string

definition OK :: Status where
  "OK = \<lparr>code = kOk, subcode = kNone, msg = []\<rparr>"

definition Corruption :: "string \<Rightarrow> Status" where
  "Corruption m = \<lparr>code = kCorruption, subcode = kNone, msg = m\<rparr>"

definition NotSupported :: "string \<Rightarrow> Status" where
  "NotSupported m = \<lparr>code = kNotSupported, subcode = kNone, msg = m\<rparr>"

definition InvalidArgument :: "string \<Rightarrow> Status" where
  "InvalidArgument m = \<lparr>code = kInvalidArgument, subcode = kNone, msg = m\<rparr>"

definition Incomplete :: "string \<Rightarrow> Status" where
  "Incomplete m = \<lparr>code = kIncomplete, subcode = kNone, msg = m\<rparr>"

definition ok :: "Status \<Rightarrow> bool" where
  "ok s \<longleftrightarrow> code s = kOk"

definition IsBusy :: "Status \<Rightarrow> bool" where
  "IsBusy s \<longleftrightarrow> code s = kBusy"

definition IsIncomplete :: "Status \<Rightarrow> bool" where
  "IsIncomplete s \<longleftrightarrow> code s = kIncomplete"

definition IsIOFenced :: "Status \<Rightarrow> bool" where
  "IsIOFenced s \<longleftrightarrow> code s = kIOError \<and> subcode s = kIOFenced"

text \<open>\<open>Status::ToString\<close> is only used to build a message; the message text stands for it.\<close>

definition ToString :: "Status \<Rightarrow> string" where
  "ToString s = msg s"

text \<open>
  Modelled from the spec: \<open>WriteBatch\<close> is missing.  Section 3: a batch is a 12-byte
  header (8-byte base sequence, 4-byte record count) followed by the records.  The records
  are kept as their bytes; the content flags the write path asks for are fields.  The WAL
  termination point (the spec's truncation point) is \<open>None\<close> when cleared and otherwise
  the length and record count of the part that goes to the WAL.
\<close>

record WriteBatch =
  batch_sequence :: SequenceNumber
  batch_count :: "32 word"
  rep :: string
  HasMerge :: bool
  HasCommit :: bool
  HasRollback :: bool
  IsLatestPersistentState :: bool
  WalTerminationPoint :: "(nat \<times> 32 word) option"

definition Count :: "WriteBatch \<Rightarrow> uint64" where
  "Count b = ucast (batch_count b)"

definition SetSequence :: "WriteBatch \<Rightarrow> SequenceNumber \<Rightarrow> WriteBatch" where
  "SetSequence b s = b\<lparr>batch_sequence := s\<rparr>"

definition Clear :: WriteBatch where
  "Clear = \<lparr>batch_sequence = 0, batch_count = 0, rep = [], HasMerge = False,
            HasCommit = False, HasRollback = False, IsLatestPersistentState = False,
            WalTerminationPoint = None\<rparr>"

text \<open>The part of a batch that \<open>Append\<close> copies when \<open>WAL_only\<close> is set.\<close>

definition wal_rep :: "bool \<Rightarrow> WriteBatch \<Rightarrow> string" where
  "wal_rep wal_only b =
     (case WalTerminationPoint b of
        Some (len, cnt) \<Rightarrow> if wal_only then take len (rep b) else rep b
      | None \<Rightarrow> rep b)"

definition wal_count :: "bool \<Rightarrow> WriteBatch \<Rightarrow> 32 word" where
  "wal_count wal_only b =
     (case WalTerminationPoint b of
        Some (len, cnt) \<Rightarrow> if wal_only then cnt else batch_count b
      | None \<Rightarrow> batch_count b)"

text \<open>
  Modelled from the spec: \<open>WriteBatchInternal::Append\<close> is missing.  Section 4.4: the
  writers' contents are copied into the scratch batch in order; a batch with a truncation
  point contributes its contents up to that point.
\<close>

definition Append :: "WriteBatch \<Rightarrow> WriteBatch \<Rightarrow> bool \<Rightarrow> WriteBatch" where
  "Append dst src wal_only =
     dst\<lparr>batch_count := batch_count dst + wal_count wal_only src,
         rep := rep dst @ wal_rep wal_only src,
         HasMerge := HasMerge dst \<or> HasMerge src,
         HasCommit := HasCommit dst \<or> HasCommit src,
         HasRollback := HasRollback dst \<or> HasRollback src\<rparr>"

text \<open>
  Modelled from the spec: \<open>WriteThread::Writer\<close> is missing.  Section 3 lists its
  attributes.  A callback is modelled by the status it returns when it is invoked
  (\<open>None\<close>: the pointer is null).  \<open>kMaxSequenceNumber\<close> is the sequence of a writer
  that has not been assigned one.
\<close>

definition kMaxSequenceNumber :: SequenceNumber where
  "kMaxSequenceNumber = 0x00FFFFFFFFFFFFFF"

record Writer =
  batch :: WriteBatch
  disable_wal :: bool
  disable_memtable :: bool
  batch_cnt :: uint64
  pre_release_callback :: "Status option"
  log_used :: uint64
  log_ref :: uint64
  callback :: "Status option"
  sequence :: SequenceNumber
  status :: Status
  callback_status :: Status

definition new_Writer ::
  "bool \<Rightarrow> WriteBatch \<Rightarrow> Status option \<Rightarrow> uint64 \<Rightarrow> bool \<Rightarrow> uint64 \<Rightarrow> Status option \<Rightarrow> Writer" where
  "new_Writer dwal b cb lref dmem bcnt prc =
     \<lparr>batch = b, disable_wal = dwal, disable_memtable = dmem, batch_cnt = bcnt,
      pre_release_callback = prc, log_used = 0, log_ref = lref, callback = cb,
      sequence = kMaxSequenceNumber, status = OK, callback_status = OK\<rparr>"

text \<open>\<open>CheckCallback\<close> runs the pre-commit callback and keeps its status.\<close>

definition CheckCallback :: "Writer \<Rightarrow> bool \<times> Writer" where
  "CheckCallback w =
     (let w' = (case callback w of None \<Rightarrow> w | Some s \<Rightarrow> w\<lparr>callback_status := s\<rparr>)
      in (ok (callback_status w'), w'))"

definition CallbackFailed :: "Writer \<Rightarrow> bool" where
  "CallbackFailed w \<longleftrightarrow> callback w \<noteq> None \<and> \<not> ok (callback_status w)"

definition ShouldWriteToMemtable :: "Writer \<Rightarrow> bool" where
  "ShouldWriteToMemtable w \<longleftrightarrow> ok (status w) \<and> \<not> CallbackFailed w \<and> \<not> disable_memtable w"

definition FinalStatus :: "Writer \<Rightarrow> Status" where
  "FinalStatus w =
     (if \<not> ok (status w) then status w
      else if \<not> ok (callback_status w) then callback_status w
      else status w)"

record WriteOptions =
  sync :: bool
  disableWAL :: bool
  ignore_missing_column_families :: bool
  no_slowdown :: bool
  low_pri :: bool

datatype BackgroundErrorReason = kWriteCallback | kMemTable

text \<open>
  What the calling thread does to the world outside the database object, in program order.
\<close>

datatype Event =
    EvTracerWrite
  | EvRateLimiterRequest
  | EvJoinBatchGroup
  | EvEnterAsBatchGroupLeader
  | EvWaitForPendingWrites
  | EvSwitchWAL
  | EvHandleWriteBufferFull
  | EvTrimMemtableHistory
  | EvScheduleFlushes
  | EvBeginWriteStall
  | EvEndWriteStall
  | EvSleepForMicroseconds nat
  | EvWaitBgCv
  | EvWaitLogSyncCv
  | EvSetGettingSynced
  | EvAddRecord WriteBatch
  | EvSyncLog
  | EvFsyncWalDir
  | EvPreReleaseCallback nat SequenceNumber bool uint64 uint64 uint64
  | EvInsertIntoGroup SequenceNumber
  | EvInsertIntoWriter SequenceNumber
  | EvLaunchParallelMemTableWriters
  | EvCompleteParallelMemTableWriter
  | EvSetBGError Status BackgroundErrorReason
  | EvMarkLogsSynced
  | EvMarkLogsNotSynced
  | EvFlushWAL
  | EvSyncWAL
  | EvSetLastSequence SequenceNumber
  | EvExitAsBatchGroupLeader Status
  | EvExitAsBatchGroupFollower
  | EvPipelinedWriteImpl
  | EvNotifySwitchCv

text \<open>
  The database object.  What is fixed when the database is opened (the members of
  \<open>immutable_db_options_\<close> and the \<open>const\<close> members \<open>two_write_queues_\<close>,
  \<open>seq_per_batch_\<close>, \<open>manual_wal_flush_\<close>) is the record \<open>ImmutableDBOptions\<close>, an
  argument \<open>cfg\<close> of every function that reads it.  The rest is the state: the mutable
  options, the counters (\<open>versions_\<close> holds \<open>last_sequence\<close> and
  \<open>last_allocated_sequence\<close>), and the log of events.
\<close>

record ImmutableDBOptions =
  two_write_queues :: bool
  seq_per_batch :: bool
  enable_pipelined_write :: bool
  unordered_write :: bool
  allow_concurrent_memtable_write :: bool
  paranoid_checks :: bool
  manual_wal_flush :: bool
  allow_2pc :: bool

record DBImpl =
  tracer :: bool
  single_column_family_mode :: bool
  max_total_wal_size :: uint64
  max_total_in_memory_state :: uint64
  total_log_size :: uint64
  logfile_number :: uint64
  log_dir_synced :: bool
  log_empty :: bool
  has_unpersisted_data :: bool
  last_batch_group_size :: uint64
  pending_memtable_writes :: uint64
  tmp_batch :: WriteBatch
  cached_recoverable_state :: WriteBatch
  cached_recoverable_state_empty :: bool
  last_sequence :: SequenceNumber
  last_allocated_sequence :: SequenceNumber
  events :: "Event list"

definition emit :: "Event list \<Rightarrow> DBImpl \<Rightarrow> DBImpl" where
  "emit es db = db\<lparr>events := events db @ es\<rparr>"

text \<open>
  Modelled from the spec: \<open>VersionSet\<close> is missing.  Section 4.3: \<open>allocate(n)\<close> is an
  atomic fetch-and-add that returns the prior value; \<open>publish(s)\<close> sets the published
  sequence.
\<close>

definition LastSequence :: "DBImpl \<Rightarrow> SequenceNumber" where
  "LastSequence db = last_sequence db"

definition SetLastSequence :: "SequenceNumber \<Rightarrow> DBImpl \<Rightarrow> DBImpl" where
  "SetLastSequence s db = emit [EvSetLastSequence s] (db\<lparr>last_sequence := s\<rparr>)"

definition FetchAddLastAllocatedSequence :: "uint64 \<Rightarrow> DBImpl \<Rightarrow> SequenceNumber \<times> DBImpl" where
  "FetchAddLastAllocatedSequence n db =
     (last_allocated_sequence db, db\<lparr>last_allocated_sequence := last_allocated_sequence db + n\<rparr>)"

text \<open>
  The moments at which the thread can observe a changed world are its blocking calls (a
  sleep, a wait on a condition variable): \<open>World\<close> is what the write controller, the error
  handler and the clock say, and the environment gives one for each number of blocking
  calls made so far.
\<close>

record World =
  NeedsDelay :: bool
  IsStopped :: bool
  GetBGError :: Status
  IsDBStopped :: bool
  NowMicros :: nat

datatype JoinState =
    STATE_GROUP_LEADER "Writer list"
  | STATE_PARALLEL_MEMTABLE_WRITER Writer SequenceNumber
  | STATE_COMPLETED Writer

record Env =
  world :: "nat \<Rightarrow> World"
  GetDelay :: "uint64 \<Rightarrow> nat"
  NeedSpeedupCompaction :: bool
  JoinBatchGroup :: JoinState
  EnterAsBatchGroupLeader_size :: uint64
  SwitchWAL_status :: Status
  ShouldFlush :: bool
  HandleWriteBufferFull_status :: Status
  trim_history_scheduler_Empty :: bool
  TrimMemtableHistory_status :: Status
  flush_scheduler_Empty :: bool
  ScheduleFlushes_status :: Status
  SwitchMemtable_advance :: uint64
  front_log_getting_synced :: "nat \<Rightarrow> bool"
  AddRecord_status :: Status
  Sync_status :: "Status list"
  Fsync_status :: Status
  InsertInto_status :: Status
  MarkLogsSynced_status :: Status
  FlushWAL_status :: Status
  SyncWAL_status :: Status
  CompleteParallelMemTableWriter :: bool
  PipelinedWriteImpl_status :: Status

section \<open>The write path: status checks and the WAL\<close>

text \<open>
  Modelled from the spec: \<open>ErrorHandler::SetBGError\<close> is missing.  Section 7: an error
  is recorded as a background error via the error handler; the call is an event.
\<close>

definition SetBGError :: "Status \<Rightarrow> BackgroundErrorReason \<Rightarrow> DBImpl \<Rightarrow> DBImpl" where
  "SetBGError s r db = emit [EvSetBGError s r] db"

definition WriteStatusCheckOnLocked :: "ImmutableDBOptions \<Rightarrow> Status \<Rightarrow> DBImpl \<Rightarrow> DBImpl" where
  "WriteStatusCheckOnLocked cfg st db =
     (if paranoid_checks cfg \<and> \<not> ok st \<and> \<not> IsBusy st \<and> \<not> IsIncomplete st
      then SetBGError st kWriteCallback db else db)"

definition WriteStatusCheck :: "ImmutableDBOptions \<Rightarrow> Status \<Rightarrow> DBImpl \<Rightarrow> DBImpl" where
  "WriteStatusCheck cfg st db =
     (if paranoid_checks cfg \<and> \<not> ok st \<and> \<not> IsBusy st \<and> \<not> IsIncomplete st
      then SetBGError st kWriteCallback db else db)"

definition IOStatusCheck :: "ImmutableDBOptions \<Rightarrow> Status \<Rightarrow> DBImpl \<Rightarrow> DBImpl" where
  "IOStatusCheck cfg io_status db =
     (if (paranoid_checks cfg \<and> \<not> ok io_status \<and> \<not> IsBusy io_status \<and>
          \<not> IsIncomplete io_status) \<or> IsIOFenced io_status
      then SetBGError io_status kWriteCallback db else db)"

definition MemTableInsertStatusCheck :: "Status \<Rightarrow> DBImpl \<Rightarrow> DBImpl" where
  "MemTableInsertStatusCheck st db =
     (if \<not> ok st then SetBGError st kMemTable db else db)"

definition GetMaxTotalWalSize :: "DBImpl \<Rightarrow> uint64" where
  "GetMaxTotalWalSize db =
     (if max_total_wal_size db = 0 then 4 * max_total_in_memory_state db
      else max_total_wal_size db)"

text \<open>
  \<open>MergeBatch\<close>.  The result says whether the merged batch is the leader's own batch (the
  source compares the pointers), and gives the merged batch, \<open>write_with_wal\<close> and
  \<open>to_be_cached_state\<close>.  The \<open>for\<close> loop of the \<open>else\<close> branch is \<open>MergeBatch_loop\<close>.
\<close>

fun MergeBatch_loop ::
  "Writer list \<Rightarrow> WriteBatch \<times> uint64 \<times> WriteBatch option
     \<Rightarrow> WriteBatch \<times> uint64 \<times> WriteBatch option" where
  "MergeBatch_loop [] acc = acc"
| "MergeBatch_loop (writer # ws) (merged_batch, write_with_wal, to_be_cached_state) =
     (if \<not> CallbackFailed writer then
        MergeBatch_loop ws
          (Append merged_batch (batch writer) True,
           write_with_wal + 1,
           if IsLatestPersistentState (batch writer) then Some (batch writer)
           else to_be_cached_state)
      else MergeBatch_loop ws (merged_batch, write_with_wal, to_be_cached_state))"

definition MergeBatch ::
  "Writer list \<Rightarrow> WriteBatch \<Rightarrow> bool \<times> WriteBatch \<times> uint64 \<times> WriteBatch option" where
  "MergeBatch write_group tmp =
     (if length write_group = 1 \<and> \<not> CallbackFailed (hd write_group) \<and>
         WalTerminationPoint (batch (hd write_group)) = None
      then (True, batch (hd write_group), 1,
            if IsLatestPersistentState (batch (hd write_group))
            then Some (batch (hd write_group)) else None)
      else (case MergeBatch_loop write_group (tmp, 0, None) of
              (merged_batch, write_with_wal, to_be_cached_state) \<Rightarrow>
                (False, merged_batch, write_with_wal, to_be_cached_state)))"

text \<open>
  \<open>WriteToWAL(const WriteBatch&, ...)\<close>: the record handed to the log writer is the
  batch with its header, \<open>kHeader = 12\<close> bytes.
\<close>

definition WriteToWAL_batch :: "Env \<Rightarrow> WriteBatch \<Rightarrow> DBImpl \<Rightarrow> Status \<times> uint64 \<times> DBImpl" where
  "WriteToWAL_batch env merged_batch db =
     (let log_size = of_nat (12 + length (rep merged_batch));
          db1 = emit [EvAddRecord merged_batch] db
      in (AddRecord_status env, log_size,
          db1\<lparr>total_log_size := total_log_size db1 + log_size, log_empty := False\<rparr>))"

text \<open>The log-used bookkeeping shared by both group variants of \<open>WriteToWAL\<close>.\<close>

definition set_log_used :: "bool \<Rightarrow> uint64 \<Rightarrow> uint64 \<Rightarrow> Writer list \<Rightarrow> Writer list" where
  "set_log_used in_place write_with_wal n write_group =
     (if in_place then (hd write_group)\<lparr>log_used := n\<rparr> # tl write_group
      else if 1 < write_with_wal then map (\<lambda>writer. writer\<lparr>log_used := n\<rparr>) write_group
      else write_group)"

text \<open>
  \<open>SetSequence(merged_batch, sequence)\<close> writes through the pointer: when the merged batch
  is the leader's batch, it is the leader's batch that is stamped.
\<close>

definition stamp_leader :: "bool \<Rightarrow> WriteBatch \<Rightarrow> Writer list \<Rightarrow> Writer list" where
  "stamp_leader in_place merged write_group =
     (if in_place then (hd write_group)\<lparr>batch := merged\<rparr> # tl write_group else write_group)"

definition cache_state :: "WriteBatch option \<Rightarrow> DBImpl \<Rightarrow> DBImpl" where
  "cache_state to_be_cached_state db =
     (case to_be_cached_state of
        None \<Rightarrow> db
      | Some b \<Rightarrow> db\<lparr>cached_recoverable_state := b, cached_recoverable_state_empty := False\<rparr>)"

text \<open>The loop over \<open>logs_\<close> that syncs each log file and stops at the first failure.\<close>

fun sync_logs :: "Status list \<Rightarrow> Status \<Rightarrow> Status \<times> Event list" where
  "sync_logs [] io_s = (io_s, [])"
| "sync_logs (s # ss) io_s =
     (if \<not> ok s then (s, [EvSyncLog])
      else case sync_logs ss s of (io_s', es) \<Rightarrow> (io_s', EvSyncLog # es))"

definition WriteToWAL ::
  "Env \<Rightarrow> Writer list \<Rightarrow> bool \<Rightarrow> bool \<Rightarrow> SequenceNumber \<Rightarrow> DBImpl
     \<Rightarrow> Status \<times> Writer list \<times> DBImpl" where
  "WriteToWAL env write_group need_log_sync need_log_dir_sync sequence_arg db =
     (case MergeBatch write_group (tmp_batch db) of
        (in_place, merged_batch, write_with_wal, to_be_cached_state) \<Rightarrow>
          let g1 = set_log_used in_place write_with_wal (logfile_number db) write_group;
              merged = SetSequence merged_batch sequence_arg;
              g2 = stamp_leader in_place merged g1
          in case WriteToWAL_batch env merged db of
               (io_s, log_size, db1) \<Rightarrow>
                 let db2 = cache_state to_be_cached_state db1;
                     r = (if ok io_s \<and> need_log_sync then
                            (case sync_logs (Sync_status env) io_s of
                               (io_s1, es) \<Rightarrow>
                                 if ok io_s1 \<and> need_log_dir_sync
                                 then (Fsync_status env, emit (es @ [EvFsyncWalDir]) db2)
                                 else (io_s1, emit es db2))
                          else (io_s, db2));
                     db3 = (if in_place then snd r else (snd r)\<lparr>tmp_batch := Clear\<rparr>)
                 in (fst r, g2, db3))"

text \<open>
  \<open>ConcurrentWriteToWAL\<close>: the scratch batch is a local one, and the sequence is
  allocated together with the append.  The second component is \<open>*last_sequence\<close>.
\<close>

definition ConcurrentWriteToWAL ::
  "Env \<Rightarrow> Writer list \<Rightarrow> uint64 \<Rightarrow> DBImpl
     \<Rightarrow> Status \<times> SequenceNumber \<times> Writer list \<times> DBImpl" where
  "ConcurrentWriteToWAL env write_group seq_inc db =
     (case MergeBatch write_group Clear of
        (in_place, merged_batch, write_with_wal, to_be_cached_state) \<Rightarrow>
          let g1 = set_log_used in_place write_with_wal (logfile_number db) write_group
          in case FetchAddLastAllocatedSequence seq_inc db of
               (last0, db1) \<Rightarrow>
                 let merged = SetSequence merged_batch (last0 + 1);
                     g2 = stamp_leader in_place merged g1
                 in case WriteToWAL_batch env merged db1 of
                      (io_s, log_size, db2) \<Rightarrow>
                        (io_s, last0, g2, cache_state to_be_cached_state db2))"

section \<open>The write path: preprocessing\<close>

text \<open>
  \<open>DelayWrite\<close>.  Both loops block, and nothing in the source bounds the second one, so
  the loops take fuel: \<open>None\<close> means that the fuel ran out while the thread was still
  sleeping or waiting.  \<open>t\<close> counts the blocking calls made so far.  Times are in
  microseconds.
\<close>

fun DelayWrite_sleep ::
  "Env \<Rightarrow> nat \<Rightarrow> nat \<Rightarrow> nat \<Rightarrow> bool \<Rightarrow> DBImpl \<Rightarrow> (nat \<times> bool \<times> DBImpl) option" where
  "DelayWrite_sleep env 0 stall_end t delayed db =
     (if NeedsDelay (world env t) \<and> \<not> stall_end \<le> NowMicros (world env t) then None
      else Some (t, delayed, db))"
| "DelayWrite_sleep env (Suc fuel) stall_end t delayed db =
     (if NeedsDelay (world env t) \<and> \<not> stall_end \<le> NowMicros (world env t) then
        DelayWrite_sleep env fuel stall_end (Suc t) True
          (emit [EvSleepForMicroseconds 1000] db)
      else Some (t, delayed, db))"

fun DelayWrite_wait ::
  "Env \<Rightarrow> nat \<Rightarrow> WriteOptions \<Rightarrow> nat \<Rightarrow> bool \<Rightarrow> DBImpl
     \<Rightarrow> (Status option \<times> nat \<times> bool \<times> DBImpl) option" where
  "DelayWrite_wait env 0 write_options t delayed db =
     (if ok (GetBGError (world env t)) \<and> IsStopped (world env t) then
        (if no_slowdown write_options then Some (Some (Incomplete ''Write stall''), t, delayed, db)
         else None)
      else Some (None, t, delayed, db))"
| "DelayWrite_wait env (Suc fuel) write_options t delayed db =
     (if ok (GetBGError (world env t)) \<and> IsStopped (world env t) then
        (if no_slowdown write_options then Some (Some (Incomplete ''Write stall''), t, delayed, db)
         else DelayWrite_wait env fuel write_options (Suc t) True
                (emit [EvBeginWriteStall, EvWaitBgCv, EvEndWriteStall] db))
      else Some (None, t, delayed, db))"

text \<open>The end of \<open>DelayWrite\<close>, from the second loop on.\<close>

definition DelayWrite_tail ::
  "Env \<Rightarrow> nat \<Rightarrow> WriteOptions \<Rightarrow> nat \<Rightarrow> bool \<Rightarrow> DBImpl \<Rightarrow> (Status \<times> DBImpl) option" where
  "DelayWrite_tail env fuel write_options t delayed db =
     (case DelayWrite_wait env fuel write_options t delayed db of
        None \<Rightarrow> None
      | Some (Some s, t', delayed', db') \<Rightarrow> Some (s, db')
      | Some (None, t', delayed', db') \<Rightarrow>
          let s0 = OK;
              s1 = (if IsStopped (world env t')
                    then Incomplete (ToString (GetBGError (world env t'))) else s0);
              s2 = (if IsDBStopped (world env t') then GetBGError (world env t') else s1)
          in Some (s2, db'))"

definition DelayWrite ::
  "Env \<Rightarrow> nat \<Rightarrow> uint64 \<Rightarrow> WriteOptions \<Rightarrow> DBImpl \<Rightarrow> (Status \<times> DBImpl) option" where
  "DelayWrite env fuel num_bytes write_options db =
     (let start_time = NowMicros (world env 0);
          delay = GetDelay env num_bytes
      in if 0 < delay then
           (if no_slowdown write_options then Some (Incomplete ''Write stall'', db)
            else case DelayWrite_sleep env fuel (start_time + delay) 0 False
                        (emit [EvBeginWriteStall] db) of
                   None \<Rightarrow> None
                 | Some (t, delayed, db1) \<Rightarrow>
                     DelayWrite_tail env fuel write_options t delayed
                       (emit [EvEndWriteStall] db1))
         else DelayWrite_tail env fuel write_options 0 False db)"

text \<open>
  The switches of WAL and memtables (\<open>SwitchWAL\<close>, \<open>HandleWriteBufferFull\<close>,
  \<open>ScheduleFlushes\<close>) are events with a status from the environment; through
  \<open>WriteRecoverableState\<close> they may advance the sequence counters.
\<close>

definition switch_advance :: "ImmutableDBOptions \<Rightarrow> Env \<Rightarrow> DBImpl \<Rightarrow> DBImpl" where
  "switch_advance cfg env db =
     db\<lparr>last_sequence := last_sequence db + SwitchMemtable_advance env,
        last_allocated_sequence :=
          (if two_write_queues cfg
           then last_allocated_sequence db + SwitchMemtable_advance env
           else last_allocated_sequence db)\<rparr>"

fun wait_log_sync :: "Env \<Rightarrow> nat \<Rightarrow> nat \<Rightarrow> DBImpl \<Rightarrow> DBImpl option" where
  "wait_log_sync env 0 i db =
     (if front_log_getting_synced env i then None else Some db)"
| "wait_log_sync env (Suc fuel) i db =
     (if front_log_getting_synced env i
      then wait_log_sync env fuel (Suc i) (emit [EvWaitLogSyncCv] db)
      else Some db)"

text \<open>
  \<open>PreprocessWrite\<close> returns the status and the new value of \<open>*need_log_sync\<close>.  Its
  guarded steps are taken in the order of the source: the WAL switch, then the write-buffer
  flush, the history trimming and the scheduled flushes, then the delay, then the log sync.
\<close>

definition PreprocessWrite_switch_wal :: "ImmutableDBOptions \<Rightarrow> Env \<Rightarrow> DBImpl \<Rightarrow> Status \<times> DBImpl" where
  "PreprocessWrite_switch_wal cfg env db =
     (let st = (if IsDBStopped (world env 0) then GetBGError (world env 0) else OK)
      in if ok st \<and> \<not> single_column_family_mode db \<and>
            GetMaxTotalWalSize db < total_log_size db
         then (SwitchWAL_status env,
               switch_advance cfg env (emit [EvWaitForPendingWrites, EvSwitchWAL] db))
         else (st, db))"

definition PreprocessWrite_flushes :: "ImmutableDBOptions \<Rightarrow> Env \<Rightarrow> Status \<times> DBImpl \<Rightarrow> Status \<times> DBImpl" where
  "PreprocessWrite_flushes cfg env r1 =
     (let r2 = (if ok (fst r1) \<and> ShouldFlush env
                then (HandleWriteBufferFull_status env,
                      switch_advance cfg env
                        (emit [EvWaitForPendingWrites, EvHandleWriteBufferFull] (snd r1)))
                else r1);
          r3 = (if ok (fst r2) \<and> \<not> trim_history_scheduler_Empty env
                then (TrimMemtableHistory_status env, emit [EvTrimMemtableHistory] (snd r2))
                else r2)
      in if ok (fst r3) \<and> \<not> flush_scheduler_Empty env
         then (ScheduleFlushes_status env,
               switch_advance cfg env (emit [EvWaitForPendingWrites, EvScheduleFlushes] (snd r3)))
         else r3)"

definition PreprocessWrite_delay ::
  "Env \<Rightarrow> nat \<Rightarrow> WriteOptions \<Rightarrow> Status \<times> DBImpl \<Rightarrow> (Status \<times> DBImpl) option" where
  "PreprocessWrite_delay env fuel write_options r4 =
     (if ok (fst r4) \<and> (IsStopped (world env 0) \<or> NeedsDelay (world env 0))
      then DelayWrite env fuel (last_batch_group_size (snd r4)) write_options (snd r4)
      else Some r4)"

definition PreprocessWrite_log_sync ::
  "Env \<Rightarrow> nat \<Rightarrow> bool \<Rightarrow> Status \<times> DBImpl \<Rightarrow> (Status \<times> bool \<times> DBImpl) option" where
  "PreprocessWrite_log_sync env fuel need_log_sync r5 =
     (if ok (fst r5) \<and> need_log_sync then
        (case wait_log_sync env fuel 0 (snd r5) of
           None \<Rightarrow> None
         | Some db6 \<Rightarrow> Some (fst r5, True, emit [EvSetGettingSynced] db6))
      else Some (fst r5, False, snd r5))"

definition PreprocessWrite ::
  "ImmutableDBOptions \<Rightarrow> Env \<Rightarrow> nat \<Rightarrow> WriteOptions \<Rightarrow> bool \<Rightarrow> DBImpl \<Rightarrow> (Status \<times> bool \<times> DBImpl) option" where
  "PreprocessWrite cfg env fuel write_options need_log_sync db =
     (case PreprocessWrite_delay env fuel write_options
             (PreprocessWrite_flushes cfg env (PreprocessWrite_switch_wal cfg env db)) of
        None \<Rightarrow> None
      | Some r5 \<Rightarrow> PreprocessWrite_log_sync env fuel need_log_sync r5)"

definition ThrottleLowPriWritesIfNeeded ::
  "ImmutableDBOptions \<Rightarrow> Env \<Rightarrow> WriteOptions \<Rightarrow> WriteBatch \<Rightarrow> DBImpl \<Rightarrow> Status \<times> DBImpl" where
  "ThrottleLowPriWritesIfNeeded cfg env write_options my_batch db =
     (if NeedSpeedupCompaction env then
        (if allow_2pc cfg \<and> (HasCommit my_batch \<or> HasRollback my_batch) then (OK, db)
         else if no_slowdown write_options then (Incomplete ''Low priority write stall'', db)
         else (OK, emit [EvRateLimiterRequest] db))
      else (OK, db))"

section \<open>The write path: \<open>WriteImpl\<close>, the leader of a write group\<close>

text \<open>
  The first loop over the group (it runs every writer's pre-commit callback).  The
  accumulator is \<open>(total_count, valid_batches, parallel, pre_release_callback_cnt)\<close>.
\<close>

fun WriteImpl_check_group ::
  "Writer list \<Rightarrow> uint64 \<times> uint64 \<times> bool \<times> uint64
     \<Rightarrow> Writer list \<times> uint64 \<times> uint64 \<times> bool \<times> uint64" where
  "WriteImpl_check_group [] acc = ([], acc)"
| "WriteImpl_check_group (writer # ws) (total_count, valid_batches, parallel, cnt) =
     (case CheckCallback writer of
        (passed, w') \<Rightarrow>
          let acc' =
            (if passed then
               (if ShouldWriteToMemtable w' then total_count + Count (batch w') else total_count,
                valid_batches + batch_cnt w',
                if ShouldWriteToMemtable w' then parallel \<and> \<not> HasMerge (batch w') else parallel,
                if pre_release_callback w' \<noteq> None then cnt + 1 else cnt)
             else (total_count, valid_batches, parallel, cnt))
          in case WriteImpl_check_group ws acc' of (ws', r) \<Rightarrow> (w' # ws', r))"

text \<open>
  The WAL step.  The second component is \<open>last_sequence\<close> as it stands before
  \<open>last_sequence += seq_inc\<close>.
\<close>

definition WriteImpl_wal ::
  "ImmutableDBOptions \<Rightarrow> Env \<Rightarrow> WriteOptions \<Rightarrow> bool \<Rightarrow> bool \<Rightarrow> SequenceNumber \<Rightarrow> uint64 \<Rightarrow> Writer list \<Rightarrow> DBImpl
     \<Rightarrow> Status \<times> SequenceNumber \<times> Writer list \<times> DBImpl" where
  "WriteImpl_wal cfg env write_options need_log_sync need_log_dir_sync last_seq seq_inc write_group db =
     (if \<not> two_write_queues cfg then
        (if \<not> disableWAL write_options then
           (case WriteToWAL env write_group need_log_sync need_log_dir_sync (last_seq + 1) db of
              (io_s, g, db') \<Rightarrow> (io_s, last_seq, g, db'))
         else (OK, last_seq, write_group, db))
      else
        (if \<not> disableWAL write_options then ConcurrentWriteToWAL env write_group seq_inc db
         else (case FetchAddLastAllocatedSequence seq_inc db of
                 (last0, db') \<Rightarrow> (OK, last0, write_group, db'))))"

text \<open>
  The second loop: sequences and pre-release callbacks.  \<open>pos\<close> is the position of the
  writer in the group (it only labels the event).  The last component is the status of the
  callback that broke the loop, if one did.
\<close>

fun WriteImpl_pre_release ::
  "bool \<Rightarrow> bool \<Rightarrow> uint64 \<Rightarrow> Writer list \<Rightarrow> nat \<Rightarrow> SequenceNumber \<Rightarrow> uint64
     \<Rightarrow> Writer list \<times> Event list \<times> Status option" where
  "WriteImpl_pre_release spb dis_mem cnt [] pos next_sequence index = ([], [], None)"
| "WriteImpl_pre_release spb dis_mem cnt (writer # ws) pos next_sequence index =
     (if CallbackFailed writer then
        (case WriteImpl_pre_release spb dis_mem cnt ws (Suc pos) next_sequence index of
           (ws', es, r) \<Rightarrow> (writer # ws', es, r))
      else
        let w' = writer\<lparr>sequence := next_sequence\<rparr>;
            next' = (if spb then next_sequence + batch_cnt w'
                     else if ShouldWriteToMemtable w' then next_sequence + Count (batch w')
                     else next_sequence)
        in case pre_release_callback w' of
             None \<Rightarrow>
               (case WriteImpl_pre_release spb dis_mem cnt ws (Suc pos) next' index of
                  (ws', es, r) \<Rightarrow> (w' # ws', es, r))
           | Some ws_status \<Rightarrow>
               if \<not> ok ws_status then
                 (w' # ws,
                  [EvPreReleaseCallback pos (sequence w') dis_mem (log_used w') index cnt],
                  Some ws_status)
               else
                 (case WriteImpl_pre_release spb dis_mem cnt ws (Suc pos) next' (index + 1) of
                    (ws', es, r) \<Rightarrow>
                      (w' # ws',
                       EvPreReleaseCallback pos (sequence w') dis_mem (log_used w') index cnt # es,
                       r)))"

text \<open>
  The memtable step.  Modelled from the spec: \<open>WriteBatchInternal::InsertInto\<close> and
  \<open>LaunchParallelMemTableWriters\<close> are missing; applying batches to the memtables and
  waking the followers are events, and the status of the insertion comes from the
  environment.  The result carries \<open>in_parallel_group\<close>.
\<close>

definition WriteImpl_memtable ::
  "Env \<Rightarrow> bool \<Rightarrow> SequenceNumber \<Rightarrow> Writer list \<Rightarrow> DBImpl \<Rightarrow> Writer list \<times> bool \<times> DBImpl" where
  "WriteImpl_memtable env parallel current_sequence write_group db =
     (let w = hd write_group in
      if \<not> parallel then
        (w\<lparr>status := InsertInto_status env\<rparr> # tl write_group, False,
         emit [EvInsertIntoGroup current_sequence] db)
      else if ShouldWriteToMemtable w then
        (w\<lparr>status := InsertInto_status env\<rparr> # tl write_group, True,
         emit [EvLaunchParallelMemTableWriters, EvInsertIntoWriter (sequence w)] db)
      else (write_group, True, emit [EvLaunchParallelMemTableWriters] db))"

text \<open>
  The block guarded by \<open>status.ok()\<close> after the leader has entered its group.  The result
  is \<open>(status, io_s, last_sequence, write_group, in_parallel_group, db)\<close>.
\<close>

definition WriteImpl_commit ::
  "ImmutableDBOptions \<Rightarrow> Env \<Rightarrow> WriteOptions \<Rightarrow> bool \<Rightarrow> bool \<Rightarrow> bool \<Rightarrow> SequenceNumber \<Rightarrow> Writer list \<Rightarrow> DBImpl
     \<Rightarrow> Status \<times> Status \<times> SequenceNumber \<times> Writer list \<times> bool \<times> DBImpl" where
  "WriteImpl_commit cfg env write_options dis_mem need_log_sync need_log_dir_sync last_seq write_group db =
     (case WriteImpl_check_group write_group
             (0, 0, allow_concurrent_memtable_write cfg \<and> 1 < length write_group, 0) of
        (g1, total_count, valid_batches, parallel, cnt) \<Rightarrow>
          let seq_inc = (if seq_per_batch cfg then valid_batches else total_count);
              db1 = (if disableWAL write_options then db\<lparr>has_unpersisted_data := True\<rparr> else db)
          in case WriteImpl_wal cfg env write_options need_log_sync need_log_dir_sync last_seq
                    seq_inc g1 db1 of
               (io_s, last1, g2, db2) \<Rightarrow>
                 let current_sequence = last1 + 1;
                     last2 = last1 + seq_inc
                 in case (if ok io_s
                          then WriteImpl_pre_release (seq_per_batch cfg) dis_mem cnt g2 0
                                 current_sequence 0
                          else (g2, [], None)) of
                      (g3, es, broke) \<Rightarrow>
                        let st = (case broke of None \<Rightarrow> io_s | Some ws_status \<Rightarrow> ws_status);
                            db3 = emit es db2
                        in case (if ok st then WriteImpl_memtable env parallel current_sequence g3 db3
                                 else (g3, False, db3)) of
                             (g4, in_parallel_group, db4) \<Rightarrow>
                               (st, io_s, last2, g4, in_parallel_group, db4))"

text \<open>From the status checks to the \<open>return\<close>.\<close>

definition WriteImpl_finish ::
  "ImmutableDBOptions \<Rightarrow> Env \<Rightarrow> bool \<Rightarrow> bool \<Rightarrow> Status \<times> Status \<times> SequenceNumber \<times> Writer list \<times> bool \<times> DBImpl
     \<Rightarrow> Status \<times> Writer list \<times> DBImpl" where
  "WriteImpl_finish cfg env need_log_sync need_log_dir_sync r =
     (case r of
        (st, io_s, last_seq, write_group, in_parallel_group, db) \<Rightarrow>
          let w = hd write_group;
              db1 = (if \<not> CallbackFailed w then
                       (if \<not> ok io_s then IOStatusCheck cfg io_s db else WriteStatusCheck cfg st db)
                     else db);
              r2 = (if need_log_sync then
                      (let r1 = (if ok st then (MarkLogsSynced_status env, emit [EvMarkLogsSynced] db1)
                                 else (st, emit [EvMarkLogsNotSynced] db1))
                       in if two_write_queues cfg then
                            (if manual_wal_flush cfg
                             then (FlushWAL_status env, emit [EvFlushWAL] (snd r1))
                             else (SyncWAL_status env, emit [EvSyncWAL] (snd r1)))
                          else r1)
                    else (st, db1));
              should_exit_batch_group =
                (if in_parallel_group then CompleteParallelMemTableWriter env else True);
              db3 = (if in_parallel_group then emit [EvCompleteParallelMemTableWriter] (snd r2)
                     else snd r2);
              db4 = (if should_exit_batch_group then
                       emit [EvExitAsBatchGroupLeader (fst r2)]
                         (MemTableInsertStatusCheck (status w)
                            (if ok (fst r2) then SetLastSequence last_seq db3 else db3))
                     else db3)
          in (if ok (fst r2) then FinalStatus w else fst r2, write_group, db4))"

text \<open>
  What the leader does with its group once it has entered it: the block guarded by
  \<open>status.ok()\<close> (skipped when the preprocessing failed), then the status checks and the
  exit.  \<open>st\<close> is the status of the preprocessing.
\<close>

definition WriteImpl_group ::
  "ImmutableDBOptions \<Rightarrow> Env \<Rightarrow> WriteOptions \<Rightarrow> bool \<Rightarrow> bool \<Rightarrow> bool \<Rightarrow> Status \<Rightarrow> SequenceNumber
     \<Rightarrow> Writer list \<Rightarrow> DBImpl \<Rightarrow> Status \<times> Writer list \<times> DBImpl" where
  "WriteImpl_group cfg env write_options dis_mem need_log_sync need_log_dir_sync st last_seq
       write_group db =
     WriteImpl_finish cfg env need_log_sync need_log_dir_sync
       (if ok st
        then WriteImpl_commit cfg env write_options dis_mem need_log_sync need_log_dir_sync
               last_seq write_group db
        else (st, OK, last_seq, write_group, False, db))"

text \<open>
  The leader's path of \<open>WriteImpl\<close>, from \<open>mutex_.Lock()\<close> on.  The group that
  \<open>EnterAsBatchGroupLeader\<close> builds is the leader \<open>w\<close> followed by the followers it
  picked (Section 4.2 of the spec), which are inputs.
\<close>

definition WriteImpl_leader ::
  "ImmutableDBOptions \<Rightarrow> Env \<Rightarrow> nat \<Rightarrow> WriteOptions \<Rightarrow> bool \<Rightarrow> Writer \<Rightarrow> Writer list \<Rightarrow> DBImpl
     \<Rightarrow> (Status \<times> Writer list \<times> DBImpl) option" where
  "WriteImpl_leader cfg env fuel write_options dis_mem w followers db =
     (let need_log_sync0 = sync write_options;
          need_log_dir_sync = (need_log_sync0 \<and> \<not> log_dir_synced db);
          pre = (if \<not> two_write_queues cfg \<or> \<not> dis_mem
                 then PreprocessWrite cfg env fuel write_options need_log_sync0 db
                 else Some (OK, need_log_sync0, db))
      in case pre of
           None \<Rightarrow> None
         | Some (st, need_log_sync, db1) \<Rightarrow>
             let last_seq = (if (\<not> two_write_queues cfg \<or> \<not> dis_mem) \<and> \<not> two_write_queues cfg
                             then LastSequence db1 else kMaxSequenceNumber);
                 db2 = emit [EvEnterAsBatchGroupLeader]
                         (db1\<lparr>last_batch_group_size := EnterAsBatchGroupLeader_size env\<rparr>)
             in Some (WriteImpl_group cfg env write_options dis_mem need_log_sync
                        need_log_dir_sync st last_seq (w # followers) db2))"

section \<open>The write path: \<open>WriteImplWALOnly\<close>\<close>

text \<open>The four loops of \<open>WriteImplWALOnly\<close> over its group, in the order of the source.\<close>

fun WALOnly_check_group :: "Writer list \<Rightarrow> uint64 \<Rightarrow> Writer list \<times> uint64" where
  "WALOnly_check_group [] cnt = ([], cnt)"
| "WALOnly_check_group (writer # ws) cnt =
     (case CheckCallback writer of
        (passed, w') \<Rightarrow>
          case WALOnly_check_group ws
                 (if passed \<and> pre_release_callback w' \<noteq> None then cnt + 1 else cnt) of
            (ws', r) \<Rightarrow> (w' # ws', r))"

fun WALOnly_total_batch_cnt :: "Writer list \<Rightarrow> uint64 \<Rightarrow> uint64" where
  "WALOnly_total_batch_cnt [] total_batch_cnt = total_batch_cnt"
| "WALOnly_total_batch_cnt (writer # ws) total_batch_cnt =
     WALOnly_total_batch_cnt ws
       (if \<not> CallbackFailed writer then total_batch_cnt + batch_cnt writer else total_batch_cnt)"

fun WALOnly_assign ::
  "bool \<Rightarrow> Writer list \<Rightarrow> SequenceNumber \<Rightarrow> uint64 \<Rightarrow> Writer list \<times> uint64" where
  "WALOnly_assign assign_order [] curr_seq memtable_write_cnt = ([], memtable_write_cnt)"
| "WALOnly_assign assign_order (writer # ws) curr_seq memtable_write_cnt =
     (if CallbackFailed writer then
        (case WALOnly_assign assign_order ws curr_seq memtable_write_cnt of
           (ws', n) \<Rightarrow> (writer # ws', n))
      else
        (case WALOnly_assign assign_order ws
                (if assign_order then curr_seq + batch_cnt writer else curr_seq)
                (if \<not> disable_memtable writer then memtable_write_cnt + 1
                 else memtable_write_cnt) of
           (ws', n) \<Rightarrow> (writer\<lparr>sequence := curr_seq\<rparr> # ws', n)))"

fun WALOnly_pre_release ::
  "bool \<Rightarrow> uint64 \<Rightarrow> Writer list \<Rightarrow> nat \<Rightarrow> uint64 \<Rightarrow> Event list \<times> Status option" where
  "WALOnly_pre_release dis_mem cnt [] pos index = ([], None)"
| "WALOnly_pre_release dis_mem cnt (writer # ws) pos index =
     (if \<not> CallbackFailed writer \<and> pre_release_callback writer \<noteq> None then
        (let ev = EvPreReleaseCallback pos (sequence writer) dis_mem (log_used writer) index cnt
         in if \<not> ok (the (pre_release_callback writer))
            then ([ev], pre_release_callback writer)
            else (case WALOnly_pre_release dis_mem cnt ws (Suc pos) (index + 1) of
                    (es, r) \<Rightarrow> (ev # es, r)))
      else WALOnly_pre_release dis_mem cnt ws (Suc pos) index)"

text \<open>
  The leader's path of \<open>WriteImplWALOnly\<close> after the optional preprocessing, from the
  second \<open>EnterAsBatchGroupLeader\<close> on.
\<close>

definition WriteImplWALOnly_group ::
  "ImmutableDBOptions \<Rightarrow> Env \<Rightarrow> WriteOptions \<Rightarrow> bool \<Rightarrow> bool \<Rightarrow> bool \<Rightarrow> Writer list \<Rightarrow> DBImpl
     \<Rightarrow> Status \<times> Writer list \<times> DBImpl" where
  "WriteImplWALOnly_group cfg env write_options assign_order publish_last_seq dis_mem write_group db0 =
     (let db = emit [EvEnterAsBatchGroupLeader] db0 in
      case WALOnly_check_group write_group 0 of
        (g1, cnt) \<Rightarrow>
          let seq_inc = (if assign_order then WALOnly_total_batch_cnt g1 0 else 0);
              r1 = (if \<not> disableWAL write_options then ConcurrentWriteToWAL env g1 seq_inc db
                    else (case FetchAddLastAllocatedSequence seq_inc db of
                            (last0, db') \<Rightarrow> (OK, last0, g1, db')))
          in case r1 of
               (io_s, last_seq, g2, db2) \<Rightarrow>
                 (case WALOnly_assign assign_order g2 (last_seq + 1) 0 of
                    (g3, memtable_write_cnt) \<Rightarrow>
                      let r2 = (if ok io_s \<and> sync write_options then
                                  (if manual_wal_flush cfg
                                   then (FlushWAL_status env, emit [EvFlushWAL] db2)
                                   else (SyncWAL_status env, emit [EvSyncWAL] db2))
                                else (io_s, db2));
                          w = hd g3;
                          db3 = (if \<not> CallbackFailed w then
                                   (if \<not> ok io_s then IOStatusCheck cfg io_s (snd r2)
                                    else WriteStatusCheck cfg (fst r2) (snd r2))
                                 else snd r2);
                          r3 = (if ok (fst r2) then WALOnly_pre_release dis_mem cnt g3 0 0
                                else ([], None));
                          st = (case snd r3 of None \<Rightarrow> fst r2 | Some ws_status \<Rightarrow> ws_status);
                          db4 = emit (fst r3) db3;
                          db5 = (if publish_last_seq then SetLastSequence (last_seq + seq_inc) db4
                                 else db4);
                          db6 = (if unordered_write cfg \<and> ok st
                                 then db5\<lparr>pending_memtable_writes :=
                                            pending_memtable_writes db5 + memtable_write_cnt\<rparr>
                                 else db5);
                          db7 = emit [EvExitAsBatchGroupLeader st] db6
                      in (if ok st then FinalStatus w else st, g3, db7)))"

definition WriteImplWALOnly ::
  "ImmutableDBOptions \<Rightarrow> Env \<Rightarrow> nat \<Rightarrow> WriteOptions \<Rightarrow> WriteBatch \<Rightarrow> Status option \<Rightarrow> uint64 \<Rightarrow> uint64
     \<Rightarrow> Status option \<Rightarrow> bool \<Rightarrow> bool \<Rightarrow> bool \<Rightarrow> DBImpl
     \<Rightarrow> (Status \<times> Writer list \<times> DBImpl) option" where
  "WriteImplWALOnly cfg env fuel write_options my_batch cb lref sub_batch_cnt prc
       assign_order publish_last_seq dis_mem db0 =
     (let w = new_Writer (disableWAL write_options) my_batch cb lref dis_mem sub_batch_cnt prc;
          db = emit [EvJoinBatchGroup] db0
      in case JoinBatchGroup env of
           STATE_COMPLETED w' \<Rightarrow> Some (FinalStatus w', [w'], db)
         | STATE_PARALLEL_MEMTABLE_WRITER w' s \<Rightarrow> None
         | STATE_GROUP_LEADER followers \<Rightarrow>
             let pre =
               (if publish_last_seq then
                  (let st0 = (if IsDBStopped (world env 0) then GetBGError (world env 0) else OK)
                   in if ok st0 then
                        (case PreprocessWrite cfg env fuel write_options False db of
                           None \<Rightarrow> None
                         | Some (st1, need_log_sync, db1) \<Rightarrow>
                             Some (st1, WriteStatusCheckOnLocked cfg st1 db1))
                      else Some (st0, db))
                else Some (OK, db))
             in case pre of
                  None \<Rightarrow> None
                | Some (st, db1) \<Rightarrow>
                    if publish_last_seq \<and> \<not> ok st then
                      Some (st, w # followers,
                            emit [EvEnterAsBatchGroupLeader, EvExitAsBatchGroupLeader st] db1)
                    else
                      Some (WriteImplWALOnly_group cfg env write_options assign_order
                              publish_last_seq dis_mem (w # followers) db1))"

text \<open>\<open>UnorderedWriteMemtable\<close>: the memtable half of an unordered write.\<close>

definition UnorderedWriteMemtable ::
  "ImmutableDBOptions \<Rightarrow> Env \<Rightarrow> WriteOptions \<Rightarrow> WriteBatch \<Rightarrow> Status option \<Rightarrow> uint64 \<Rightarrow> SequenceNumber \<Rightarrow> DBImpl
     \<Rightarrow> Status \<times> Writer \<times> DBImpl" where
  "UnorderedWriteMemtable cfg env write_options my_batch cb lref seq db =
     (case CheckCallback (new_Writer (disableWAL write_options) my_batch cb lref False 0 None) of
        (passed, w1) \<Rightarrow>
          let r = (if passed \<and> ShouldWriteToMemtable w1 then
                     (w1\<lparr>sequence := seq, status := InsertInto_status env\<rparr>,
                      (emit [EvInsertIntoWriter seq] db)
                        \<lparr>has_unpersisted_data :=
                           (disableWAL write_options \<or> has_unpersisted_data db)\<rparr>)
                   else (w1, db));
              w = fst r;
              pending_cnt = pending_memtable_writes (snd r) - 1;
              db1 = (snd r)\<lparr>pending_memtable_writes := pending_cnt\<rparr>;
              db2 = (if pending_cnt = 0 then emit [EvNotifySwitchCv] db1 else db1);
              db3 = WriteStatusCheck cfg (status w) db2
          in (if \<not> ok (FinalStatus w) then FinalStatus w else OK, w, db3))"

section \<open>The write path: the entry point\<close>

text \<open>
  \<open>WriteImpl\<close>.  A null batch pointer is \<open>None\<close>.  What \<open>JoinBatchGroup\<close> makes of the
  writer (leader of a group, parallel memtable writer, or already completed by another
  leader) is decided by the other threads and comes from the environment.  The pipelined
  path (\<open>PipelinedWriteImpl\<close>) is represented by an event and the status the environment
  gives it.  The result is the status returned to the caller, the writers the call worked
  on, and the database.
\<close>

definition WriteImpl_follower ::
  "Env \<Rightarrow> Writer \<Rightarrow> SequenceNumber \<Rightarrow> DBImpl \<Rightarrow> Status \<times> Writer list \<times> DBImpl" where
  "WriteImpl_follower env w group_last_sequence db =
     (let r = (if ShouldWriteToMemtable w
               then (w\<lparr>status := InsertInto_status env\<rparr>, emit [EvInsertIntoWriter (sequence w)] db)
               else (w, db));
          db1 = emit [EvCompleteParallelMemTableWriter] (snd r);
          db2 = (if CompleteParallelMemTableWriter env then
                   emit [EvExitAsBatchGroupFollower]
                     (MemTableInsertStatusCheck (status (fst r))
                        (SetLastSequence group_last_sequence db1))
                 else db1)
      in (FinalStatus (fst r), [fst r], db2))"

definition WriteImpl ::
  "ImmutableDBOptions \<Rightarrow> Env \<Rightarrow> nat \<Rightarrow> WriteOptions \<Rightarrow> WriteBatch option \<Rightarrow> Status option \<Rightarrow> uint64 \<Rightarrow> bool
     \<Rightarrow> uint64 \<Rightarrow> Status option \<Rightarrow> DBImpl \<Rightarrow> (Status \<times> Writer list \<times> DBImpl) option" where
  "WriteImpl cfg env fuel write_options my_batch cb lref dis_mem bcnt prc db0 =
     (case my_batch of
        None \<Rightarrow> Some (Corruption ''Batch is nullptr!'', [], db0)
      | Some b \<Rightarrow>
          let db = (if tracer db0 then emit [EvTracerWrite] db0 else db0) in
          if sync write_options \<and> disableWAL write_options then
            Some (InvalidArgument ''Sync writes has to enable WAL.'', [], db)
          else if two_write_queues cfg \<and> enable_pipelined_write cfg then
            Some (NotSupported ''pipelined_writes is not compatible with concurrent prepares'',
                  [], db)
          else if seq_per_batch cfg \<and> enable_pipelined_write cfg then
            Some (NotSupported ''pipelined_writes is not compatible with seq_per_batch'', [], db)
          else if unordered_write cfg \<and> enable_pipelined_write cfg then
            Some (NotSupported ''pipelined_writes is not compatible with unordered_write'',
                  [], db)
          else
            (case (if low_pri write_options
                   then ThrottleLowPriWritesIfNeeded cfg env write_options b db else (OK, db)) of
               (ts, db1) \<Rightarrow>
                 if \<not> ok ts then Some (ts, [], db1)
                 else if two_write_queues cfg \<and> dis_mem then
                   WriteImplWALOnly cfg env fuel write_options b cb lref bcnt prc
                     (seq_per_batch cfg) False dis_mem db1
                 else if unordered_write cfg then
                   (let sub_batch_cnt = (if bcnt \<noteq> 0 then bcnt else Count b) in
                    case WriteImplWALOnly cfg env fuel write_options b cb lref sub_batch_cnt prc
                           True True dis_mem db1 of
                      None \<Rightarrow> None
                    | Some (st, g, db2) \<Rightarrow>
                        if \<not> ok st then Some (st, g, db2)
                        else if \<not> dis_mem then
                          (case UnorderedWriteMemtable cfg env write_options b cb lref
                                  (sequence (hd g)) db2 of
                             (st', w', db3) \<Rightarrow> Some (st', g, db3))
                        else Some (st, g, db2))
                 else if enable_pipelined_write cfg then
                   Some (PipelinedWriteImpl_status env, [], emit [EvPipelinedWriteImpl] db1)
                 else
                   (let w = new_Writer (disableWAL write_options) b cb lref dis_mem bcnt prc;
                        db2 = emit [EvJoinBatchGroup] db1
                    in case JoinBatchGroup env of
                         STATE_PARALLEL_MEMTABLE_WRITER w' group_last_sequence \<Rightarrow>
                           Some (WriteImpl_follower env w' group_last_sequence db2)
                       | STATE_COMPLETED w' \<Rightarrow> Some (FinalStatus w', [w'], db2)
                       | STATE_GROUP_LEADER followers \<Rightarrow>
                           WriteImpl_leader cfg env fuel write_options dis_mem w followers db2)))"

section \<open>Example inputs\<close>

text \<open>
  A quiet environment (nothing stalls, every collaborator succeeds, the writer becomes the
  leader of a group of its own), a small single-queue database, default write options and
  three batches, for the concrete runs below.
\<close>

definition example_world :: World where
  "example_world =
     \<lparr>NeedsDelay = False, IsStopped = False, GetBGError = OK, IsDBStopped = False,
      NowMicros = 0\<rparr>"

definition example_env :: Env where
  "example_env =
     \<lparr>world = (\<lambda>t. example_world), GetDelay = (\<lambda>n. 0), NeedSpeedupCompaction = False,
      JoinBatchGroup = STATE_GROUP_LEADER [], EnterAsBatchGroupLeader_size = 0,
      SwitchWAL_status = OK, ShouldFlush = False, HandleWriteBufferFull_status = OK,
      trim_history_scheduler_Empty = True, TrimMemtableHistory_status = OK,
      flush_scheduler_Empty = True, ScheduleFlushes_status = OK, SwitchMemtable_advance = 0,
      front_log_getting_synced = (\<lambda>i. False), AddRecord_status = OK, Sync_status = [OK],
      Fsync_status = OK, InsertInto_status = OK, MarkLogsSynced_status = OK,
      FlushWAL_status = OK, SyncWAL_status = OK, CompleteParallelMemTableWriter = True,
      PipelinedWriteImpl_status = OK\<rparr>"

definition example_cfg :: ImmutableDBOptions where
  "example_cfg =
     \<lparr>two_write_queues = False, seq_per_batch = False, enable_pipelined_write = False,
      unordered_write = False, allow_concurrent_memtable_write = False,
      paranoid_checks = True, manual_wal_flush = False, allow_2pc = False\<rparr>"

definition example_db :: DBImpl where
  "example_db =
     \<lparr>tracer = False,
      single_column_family_mode = False, max_total_wal_size = 0,
      max_total_in_memory_state = 1024, total_log_size = 100, logfile_number = 7,
      log_dir_synced = False, log_empty = True, has_unpersisted_data = False,
      last_batch_group_size = 0, pending_memtable_writes = 0, tmp_batch = Clear,
      cached_recoverable_state = Clear, cached_recoverable_state_empty = True,
      last_sequence = 10, last_allocated_sequence = 10, events = []\<rparr>"

definition example_options :: WriteOptions where
  "example_options =
     \<lparr>sync = False, disableWAL = False, ignore_missing_column_families = False,
      no_slowdown = False, low_pri = False\<rparr>"

definition example_batch2 :: WriteBatch where
  "example_batch2 = Clear\<lparr>batch_count := 2, rep := ''k1v1k2v2''\<rparr>"

definition example_batch3 :: WriteBatch where
  "example_batch3 = Clear\<lparr>batch_count := 3, rep := ''abcdef''\<rparr>"

section \<open>Auxiliary notions for the statements\<close>

text \<open>The events a step adds to the log of a database.\<close>

definition new_events :: "DBImpl \<Rightarrow> DBImpl \<Rightarrow> Event list" where
  "new_events db db' = drop (length (events db)) (events db')"

text \<open>Sets of events and conditions used to state what the preprocessing does.\<close>

definition stall_wait :: "Event list" where
  "stall_wait = [EvBeginWriteStall, EvWaitBgCv, EvEndWriteStall]"

definition stall_events :: "Event set" where
  "stall_events = {EvBeginWriteStall, EvEndWriteStall, EvWaitBgCv, EvSleepForMicroseconds 1000}"

definition triggers_switch_wal :: "ImmutableDBOptions \<Rightarrow> Env \<Rightarrow> DBImpl \<Rightarrow> bool" where
  "triggers_switch_wal cfg env db \<longleftrightarrow>
     \<not> (IsDBStopped (world env 0) \<and> \<not> ok (GetBGError (world env 0))) \<and>
     \<not> single_column_family_mode db \<and> GetMaxTotalWalSize db < total_log_size db"

definition consumes :: "bool \<Rightarrow> Writer \<Rightarrow> uint64" where
  "consumes spb w =
     (if CallbackFailed w then 0
      else if spb then batch_cnt w
      else if ShouldWriteToMemtable w then Count (batch w)
      else 0)"

definition checked :: "Writer \<Rightarrow> Writer" where
  "checked w = snd (CheckCallback w)"

definition fresh :: "Writer \<Rightarrow> bool" where
  "fresh w \<longleftrightarrow> ok (status w) \<and> ok (callback_status w)"

fun assigned :: "bool \<Rightarrow> SequenceNumber \<Rightarrow> Writer list \<Rightarrow> Writer list" where
  "assigned spb next_sequence [] = []"
| "assigned spb next_sequence (w # ws) =
     (if CallbackFailed w then w # assigned spb next_sequence ws
      else w\<lparr>sequence := next_sequence\<rparr> # assigned spb (next_sequence + consumes spb w) ws)"

definition stamped :: "Writer \<Rightarrow> Writer \<Rightarrow> bool" where
  "stamped w w' \<longleftrightarrow>
     (\<exists>lu bs. w' = w\<lparr>log_used := lu, batch := (batch w)\<lparr>batch_sequence := bs\<rparr>\<rparr>)"

fun is_wal_event :: "Event \<Rightarrow> bool" where
  "is_wal_event (EvAddRecord b) = True"
| "is_wal_event EvSyncLog = True"
| "is_wal_event EvFsyncWalDir = True"
| "is_wal_event e = False"

fun is_pre_release :: "Event \<Rightarrow> bool" where
  "is_pre_release (EvPreReleaseCallback pos s dm lu idx cnt) = True"
| "is_pre_release e = False"

fun is_memtable_event :: "Event \<Rightarrow> bool" where
  "is_memtable_event (EvInsertIntoGroup s) = True"
| "is_memtable_event (EvInsertIntoWriter s) = True"
| "is_memtable_event EvLaunchParallelMemTableWriters = True"
| "is_memtable_event e = False"

fun is_AddRecord :: "Event \<Rightarrow> bool" where
  "is_AddRecord (EvAddRecord b) = True"
| "is_AddRecord e = False"

fun pre_release_calls :: "Event list \<Rightarrow> (nat \<times> SequenceNumber) list" where
  "pre_release_calls [] = []"
| "pre_release_calls (EvPreReleaseCallback pos s dm lu idx cnt # es) = (pos, s) # pre_release_calls es"
| "pre_release_calls (e # es) = pre_release_calls es"

fun expected_calls :: "Writer list \<Rightarrow> nat \<Rightarrow> (nat \<times> SequenceNumber) list" where
  "expected_calls [] pos = []"
| "expected_calls (w # ws) pos =
     (if \<not> CallbackFailed w \<and> pre_release_callback w \<noteq> None then
        (pos, sequence w) #
          (if ok (the (pre_release_callback w)) then expected_calls ws (Suc pos) else [])
      else expected_calls ws (Suc pos))"

definition seq_only :: "Writer \<Rightarrow> Writer \<Rightarrow> bool" where
  "seq_only w w' \<longleftrightarrow> (\<exists>s. w' = w\<lparr>sequence := s\<rparr>)"

definition group_seq_inc :: "ImmutableDBOptions \<Rightarrow> Writer list \<Rightarrow> uint64" where
  "group_seq_inc cfg g = sum_list (map (consumes (seq_per_batch cfg)) (map checked g))"

definition group_parallel :: "ImmutableDBOptions \<Rightarrow> Writer list \<Rightarrow> bool" where
  "group_parallel cfg g \<longleftrightarrow>
     (allow_concurrent_memtable_write cfg \<and> 1 < length g) \<and>
     list_all (\<lambda>w. ShouldWriteToMemtable w \<longrightarrow> \<not> HasMerge (batch w)) (map checked g)"

definition group_callback_cnt :: "Writer list \<Rightarrow> uint64" where
  "group_callback_cnt g =
     sum_list (map (\<lambda>w. if \<not> CallbackFailed w \<and> pre_release_callback w \<noteq> None then 1 else 0)
       (map checked g))"

definition group_base :: "ImmutableDBOptions \<Rightarrow> SequenceNumber \<Rightarrow> DBImpl \<Rightarrow> SequenceNumber" where
  "group_base cfg last_seq db =
     (if two_write_queues cfg then last_allocated_sequence db else last_seq)"

definition finish_status :: "ImmutableDBOptions \<Rightarrow> Env \<Rightarrow> bool \<Rightarrow> Status \<Rightarrow> Status" where
  "finish_status cfg env need_log_sync st =
     (if need_log_sync then
        (if two_write_queues cfg then
           (if manual_wal_flush cfg then FlushWAL_status env else SyncWAL_status env)
         else if ok st then MarkLogsSynced_status env else st)
      else st)"

fun is_SetBGError :: "Event \<Rightarrow> bool" where
  "is_SetBGError (EvSetBGError s r) = True"
| "is_SetBGError e = False"

definition io_check_events :: "ImmutableDBOptions \<Rightarrow> Status \<Rightarrow> Event list" where
  "io_check_events cfg io_s =
     (if (paranoid_checks cfg \<and> \<not> ok io_s \<and> \<not> IsBusy io_s \<and> \<not> IsIncomplete io_s) \<or>
         IsIOFenced io_s
      then [EvSetBGError io_s kWriteCallback] else [])"

definition status_check_events :: "ImmutableDBOptions \<Rightarrow> Status \<Rightarrow> Event list" where
  "status_check_events cfg st =
     (if paranoid_checks cfg \<and> \<not> ok st \<and> \<not> IsBusy st \<and> \<not> IsIncomplete st
      then [EvSetBGError st kWriteCallback] else [])"

definition finish_events ::
  "ImmutableDBOptions \<Rightarrow> Env \<Rightarrow> bool \<Rightarrow> Status \<Rightarrow> Status \<Rightarrow> SequenceNumber \<Rightarrow> Writer \<Rightarrow> bool
     \<Rightarrow> Event list" where
  "finish_events cfg env nls st io_s last_seq w ipg =
     (if \<not> CallbackFailed w
      then (if \<not> ok io_s then io_check_events cfg io_s else status_check_events cfg st)
      else []) @
     (if nls then
        (if ok st then [EvMarkLogsSynced] else [EvMarkLogsNotSynced]) @
        (if two_write_queues cfg
         then (if manual_wal_flush cfg then [EvFlushWAL] else [EvSyncWAL]) else [])
      else []) @
     (if ipg then [EvCompleteParallelMemTableWriter] else []) @
     (if ipg \<longrightarrow> CompleteParallelMemTableWriter env then
        (if ok (finish_status cfg env nls st) then [EvSetLastSequence last_seq] else []) @
        (if \<not> ok (status w) then [EvSetBGError (status w) kMemTable] else []) @
        [EvExitAsBatchGroupLeader (finish_status cfg env nls st)]
      else [])"

definition example_writer1 :: Writer where
  "example_writer1 = new_Writer False example_batch2 None 0 False 1 (Some OK)"

definition example_writer2 :: Writer where
  "example_writer2 = new_Writer False example_batch3 None 0 False 1 None"

definition example_writer_bad :: Writer where
  "example_writer_bad = new_Writer False example_batch2 None 0 False 1 (Some (Corruption ''no''))"

definition wal_only_seq_inc :: "bool \<Rightarrow> Writer list \<Rightarrow> uint64" where
  "wal_only_seq_inc assign_order g =
     (if assign_order then WALOnly_total_batch_cnt (map checked g) 0 else 0)"

definition wal_only_io_status :: "Env \<Rightarrow> WriteOptions \<Rightarrow> Status" where
  "wal_only_io_status env wo = (if disableWAL wo then OK else AddRecord_status env)"

definition wal_only_status :: "ImmutableDBOptions \<Rightarrow> Env \<Rightarrow> WriteOptions \<Rightarrow> Status" where
  "wal_only_status cfg env wo =
     (if ok (wal_only_io_status env wo) \<and> sync wo
      then (if manual_wal_flush cfg then FlushWAL_status env else SyncWAL_status env)
      else wal_only_io_status env wo)"

definition wal_only_mid :: "ImmutableDBOptions \<Rightarrow> Env \<Rightarrow> WriteOptions \<Rightarrow> bool \<Rightarrow> Event list" where
  "wal_only_mid cfg env wo failed =
     (if ok (wal_only_io_status env wo) \<and> sync wo
      then (if manual_wal_flush cfg then [EvFlushWAL] else [EvSyncWAL]) else []) @
     (if \<not> failed then
        (if \<not> ok (wal_only_io_status env wo)
         then io_check_events cfg (wal_only_io_status env wo)
         else status_check_events cfg (wal_only_status cfg env wo))
      else [])"

definition pre_release_fails :: "Writer \<Rightarrow> bool" where
  "pre_release_fails w \<longleftrightarrow>
     \<not> CallbackFailed w \<and>
     (case pre_release_callback w of None \<Rightarrow> False | Some s \<Rightarrow> \<not> ok s)"

fun assigned_until :: "bool \<Rightarrow> SequenceNumber \<Rightarrow> Writer list \<Rightarrow> Writer list" where
  "assigned_until spb next_sequence [] = []"
| "assigned_until spb next_sequence (w # ws) =
     (if CallbackFailed w then w # assigned_until spb next_sequence ws
      else w\<lparr>sequence := next_sequence\<rparr> #
             (if pre_release_fails w then ws
              else assigned_until spb (next_sequence + consumes spb w) ws))"

definition example_io_error :: Status where
  "example_io_error = \<lparr>code = kIOError, subcode = kNone, msg = ''write failed''\<rparr>"

definition example_io_fenced :: Status where
  "example_io_fenced = \<lparr>code = kIOError, subcode = kIOFenced, msg = ''fenced''\<rparr>"

definition example_writer_rejected :: Writer where
  "example_writer_rejected =
     new_Writer False example_batch2 (Some \<lparr>code = kBusy, subcode = kNone, msg = ''conflict''\<rparr>)
       0 False 1 None"

definition merged_rep :: "Writer list \<Rightarrow> string" where
  "merged_rep g = concat (map (\<lambda>w. wal_rep True (batch w)) (filter (\<lambda>w. \<not> CallbackFailed w) g))"

definition merged_count :: "Writer list \<Rightarrow> 32 word" where
  "merged_count g =
     sum_list (map (\<lambda>w. wal_count True (batch w)) (filter (\<lambda>w. \<not> CallbackFailed w) g))"

definition sleeps_at :: "Env \<Rightarrow> uint64 \<Rightarrow> nat \<Rightarrow> bool" where
  "sleeps_at env num_bytes t \<longleftrightarrow>
     0 < GetDelay env num_bytes \<and> NeedsDelay (world env t) \<and>
     NowMicros (world env t) < NowMicros (world env 0) + GetDelay env num_bytes"

definition waits_at :: "Env \<Rightarrow> nat \<Rightarrow> bool" where
  "waits_at env t \<longleftrightarrow> ok (GetBGError (world env t)) \<and> IsStopped (world env t)"

definition DelayWrite_status :: "Env \<Rightarrow> nat \<Rightarrow> Status" where
  "DelayWrite_status env t =
     (if IsDBStopped (world env t) then GetBGError (world env t)
      else if IsStopped (world env t) then Incomplete (ToString (GetBGError (world env t)))
      else OK)"

definition example_env_delay :: Env where
  "example_env_delay =
     example_env\<lparr>world := (\<lambda>t. example_world\<lparr>NeedsDelay := t < 2, NowMicros := 1000 * t\<rparr>),
                 GetDelay := (\<lambda>n. 5000)\<rparr>"

definition example_env_credit :: Env where
  "example_env_credit =
     example_env\<lparr>world := (\<lambda>t. example_world\<lparr>NeedsDelay := True\<rparr>), GetDelay := (\<lambda>n. 0)\<rparr>"

definition example_env_soft_error :: Env where
  "example_env_soft_error =
     example_env\<lparr>world := (\<lambda>t. example_world\<lparr>IsStopped := True, GetBGError := example_io_error\<rparr>),
                 GetDelay := (\<lambda>n. 0)\<rparr>"

section \<open>Properties of the task limiter\<close>

lemma GetToken_loop_eq:
  "tasks = outstanding_tasks l \<Longrightarrow>
   GetToken_loop force limit tasks sp l =
     (if force \<or> limit <s 0 \<or> tasks <s limit
      then (Some (TaskLimiterToken (name l)), l\<lparr>outstanding_tasks := tasks + 1\<rparr>)
      else (None, l))"
proof (induction sp arbitrary: tasks)
  case Nil
  then show ?case
    by (subst GetToken_loop.simps) (simp add: compare_exchange_weak_def)
next
  case (Cons b sp)
  show ?case
  proof (cases b)
    case True
    with Cons show ?thesis
      by (subst GetToken_loop.simps) (simp add: compare_exchange_weak_def)
  next
    case False
    with Cons show ?thesis
      by (subst GetToken_loop.simps) (simp add: compare_exchange_weak_def)
  qed
qed

lemma GetToken_eq:
  "GetToken l force sp =
     (if force \<or> max_outstanding_tasks l <s 0 \<or> outstanding_tasks l <s max_outstanding_tasks l
      then (Some (TaskLimiterToken (name l)), l\<lparr>outstanding_tasks := outstanding_tasks l + 1\<rparr>)
      else (None, l))"
  unfolding GetToken_def by (rule GetToken_loop_eq) simp

lemma sint_of_nat_small: "n < 2 ^ 31 \<Longrightarrow> sint (of_nat n :: int32) = int n"
  by (simp add: signed_of_nat signed_take_bit_int_eq_self)

lemma of_nat_max_iff: "n < 2 ^ 31 \<Longrightarrow> (of_nat n :: int32) = 0x7FFFFFFF \<longleftrightarrow> n = 2 ^ 31 - 1"
proof
  assume n: "n < 2 ^ 31" and "(of_nat n :: int32) = 0x7FFFFFFF"
  then have "sint (of_nat n :: int32) = sint (0x7FFFFFFF :: int32)" by simp
  with n show "n = 2 ^ 31 - 1" by (simp add: sint_of_nat_small)
next
  assume "n = 2 ^ 31 - 1"
  then show "(of_nat n :: int32) = 0x7FFFFFFF" by simp
qed

lemma of_nat_zero_iff: "n < 2 ^ 31 \<Longrightarrow> (of_nat n :: int32) = 0 \<longleftrightarrow> n = 0"
proof
  assume n: "n < 2 ^ 31" and "(of_nat n :: int32) = 0"
  then have "sint (of_nat n :: int32) = sint (0 :: int32)" by simp
  with n show "n = 0" by (simp add: sint_of_nat_small)
qed simp

lemma limiter_step_inv:
  "limiter_inv s \<Longrightarrow> limiter_step s x = Inr s' \<Longrightarrow> limiter_inv s'"
  by (cases x)
     (auto simp: limiter_inv_def GetToken_eq TaskLimiterToken_destroy_def
        ConcurrentTaskLimiterImpl_destroy_def SetMaxOutstandingTask_def
        ResetMaxOutstandingTask_def of_nat_max_iff of_nat_diff
        split: if_splits sum.splits)

lemma limiter_step_no_assert:
  "limiter_inv s \<Longrightarrow> limiter_step s x \<noteq> Inl AssertOutstandingNonNegative"
proof (cases x)
  case OpDestroyToken
  assume inv: "limiter_inv s"
  show ?thesis
  proof (cases "live_tokens s")
    case 0
    with OpDestroyToken show ?thesis by simp
  next
    case (Suc k)
    with inv have k: "k < 2 ^ 31" and o: "outstanding_tasks (limiter s) = of_nat k + 1"
      by (simp_all add: limiter_inv_def)
    from k have "0 \<le> sint (of_nat k :: int32)" by (simp add: sint_of_nat_small)
    with o OpDestroyToken Suc show ?thesis
      by (simp add: TaskLimiterToken_destroy_def word_sle_eq)
  qed
qed (auto simp: GetToken_eq ConcurrentTaskLimiterImpl_destroy_def split: if_splits)

lemma limiter_run_inv:
  "limiter_inv s \<Longrightarrow> limiter_run s ops = Inr s' \<Longrightarrow> limiter_inv s'"
proof (induction ops arbitrary: s)
  case Nil
  then show ?case by simp
next
  case (Cons x xs)
  then show ?case
    by (auto split: sum.splits dest: limiter_step_inv)
qed

lemma limiter_run_no_assert:
  "limiter_inv s \<Longrightarrow> limiter_run s ops \<noteq> Inl AssertOutstandingNonNegative"
proof (induction ops arbitrary: s)
  case Nil
  then show ?case by simp
next
  case (Cons x xs)
  then show ?case
    by (auto split: sum.splits dest: limiter_step_inv limiter_step_no_assert)
qed

lemma limiter_start_inv: "limiter_inv (limiter_start nm limit)"
  by (simp add: limiter_inv_def limiter_start_def NewConcurrentTaskLimiter_def)


text \<open>
  Claim C8.  \<open>GetToken(force)\<close> returns a token if and only if \<open>force\<close> is set, or the
  cap is negative, or the outstanding count is below the cap.  When a token is returned the
  outstanding count is incremented by exactly one (in \<open>int32_t\<close> arithmetic, and as an
  integer whenever the count is not already \<open>INT32_MAX\<close>); when none is returned the
  limiter is unchanged.  This holds for every schedule of spurious compare-exchange failures.
\<close>

theorem GetToken_grants_iff_allowed:
  "(fst (GetToken l force sp) \<noteq> None \<longleftrightarrow>
      force \<or> sint (max_outstanding_tasks l) < 0 \<or>
      sint (outstanding_tasks l) < sint (max_outstanding_tasks l)) \<and>
   (fst (GetToken l force sp) \<noteq> None \<longrightarrow>
      snd (GetToken l force sp) = l\<lparr>outstanding_tasks := outstanding_tasks l + 1\<rparr> \<and>
      (sint (outstanding_tasks l) < 2 ^ 31 - 1 \<longrightarrow>
         sint (outstanding_tasks (snd (GetToken l force sp))) = sint (outstanding_tasks l) + 1)) \<and>
   (fst (GetToken l force sp) = None \<longrightarrow> snd (GetToken l force sp) = l)"
proof -
  have step: "sint (outstanding_tasks l) < 2 ^ 31 - 1 \<Longrightarrow>
      sint (outstanding_tasks l + 1) = sint (outstanding_tasks l) + 1"
  proof -
    assume b: "sint (outstanding_tasks l) < 2 ^ 31 - 1"
    have lo: "- (2 ^ 31) \<le> sint (outstanding_tasks l)"
      using sint_ge [of "outstanding_tasks l"] by simp
    show ?thesis
      using b lo by (simp add: sint_word_add signed_take_bit_int_eq_self)
  qed
  show ?thesis
    using step by (simp add: GetToken_eq word_sless_alt)
qed

theorem GetToken_grants_iff_allowed_witness:
  "fst (GetToken (NewConcurrentTaskLimiter ''compaction'' 2) False [True, False]) \<noteq> None \<and>
   snd (GetToken (NewConcurrentTaskLimiter ''compaction'' 2) False [True, False]) =
     \<lparr>name = ''compaction'', max_outstanding_tasks = 2, outstanding_tasks = 1\<rparr> \<and>
   sint (outstanding_tasks
     (snd (GetToken (NewConcurrentTaskLimiter ''compaction'' 2) False [True, False]))) = 1 \<and>
   fst (GetToken (NewConcurrentTaskLimiter ''compaction'' 0) False []) = None \<and>
   snd (GetToken (NewConcurrentTaskLimiter ''compaction'' 0) False []) =
     NewConcurrentTaskLimiter ''compaction'' 0"
  using GetToken_grants_iff_allowed [of "NewConcurrentTaskLimiter ''compaction'' 2" False "[True, False]"]
    GetToken_grants_iff_allowed [of "NewConcurrentTaskLimiter ''compaction'' 0" False "[]"]
  by (simp add: NewConcurrentTaskLimiter_def)

text \<open>
  Claim C9.  The outstanding count starts at zero.  In every run of limiter operations from
  a fresh limiter the assertion of the token destructor never fails, and in every state the
  run reaches the outstanding count equals the number of live tokens and is not negative; a
  destroyed limiter has count zero and no live token; destroying a token from there
  decrements the count by exactly one; a throttled \<open>GetToken\<close> leaves the state unchanged.
\<close>

theorem outstanding_equals_live_tokens:
  "outstanding_tasks (limiter (limiter_start nm limit)) = 0 \<and>
   limiter_run (limiter_start nm limit) ops \<noteq> Inl AssertOutstandingNonNegative \<and>
   (\<forall>s. limiter_run (limiter_start nm limit) ops = Inr s \<longrightarrow>
      sint (outstanding_tasks (limiter s)) = int (live_tokens s) \<and>
      0 \<le> sint (outstanding_tasks (limiter s)) \<and>
      (destroyed s \<longrightarrow> outstanding_tasks (limiter s) = 0 \<and> live_tokens s = 0) \<and>
      (\<forall>s'. limiter_step s OpDestroyToken = Inr s' \<longrightarrow>
         sint (outstanding_tasks (limiter s')) = sint (outstanding_tasks (limiter s)) - 1 \<and>
         Suc (live_tokens s') = live_tokens s) \<and>
      (\<forall>force sp s'. limiter_step s (OpGetToken force sp) = Inr s' \<longrightarrow>
         fst (GetToken (limiter s) force sp) = None \<longrightarrow> s' = s))"
proof (intro conjI allI impI)
  show "outstanding_tasks (limiter (limiter_start nm limit)) = 0"
    by (simp add: limiter_start_def NewConcurrentTaskLimiter_def)
  show "limiter_run (limiter_start nm limit) ops \<noteq> Inl AssertOutstandingNonNegative"
    by (rule limiter_run_no_assert [OF limiter_start_inv])
next
  fix s
  assume "limiter_run (limiter_start nm limit) ops = Inr s"
  then have inv: "limiter_inv s"
    by (rule limiter_run_inv [OF limiter_start_inv])
  then show eq: "sint (outstanding_tasks (limiter s)) = int (live_tokens s)"
    by (simp add: limiter_inv_def sint_of_nat_small)
  then show "0 \<le> sint (outstanding_tasks (limiter s))"
    by simp
  {
    assume "destroyed s"
    with inv show z: "outstanding_tasks (limiter s) = 0"
      unfolding limiter_inv_def by blast
    from inv have "outstanding_tasks (limiter s) = of_nat (live_tokens s)"
      and "live_tokens s < 2 ^ 31"
      unfolding limiter_inv_def by blast+
    with z show "live_tokens s = 0"
      by (simp add: of_nat_zero_iff)
  }
  {
    fix s'
    assume st: "limiter_step s OpDestroyToken = Inr s'"
    with inv have inv': "limiter_inv s'"
      by (rule limiter_step_inv)
    from st show "Suc (live_tokens s') = live_tokens s"
      by (auto split: if_splits sum.splits)
    with eq inv' show "sint (outstanding_tasks (limiter s')) = sint (outstanding_tasks (limiter s)) - 1"
      by (simp add: limiter_inv_def sint_of_nat_small)
  }
  {
    fix force sp s'
    assume "limiter_step s (OpGetToken force sp) = Inr s'"
      and "fst (GetToken (limiter s) force sp) = None"
    then show "s' = s"
      by (auto simp: GetToken_eq split: if_splits)
  }
qed

theorem outstanding_equals_live_tokens_witness:
  "limiter_run (limiter_start ''flush'' 1)
     [OpGetToken False [True], OpGetToken False [], OpGetToken True [], OpDestroyToken] =
   Inr \<lparr>limiter = \<lparr>name = ''flush'', max_outstanding_tasks = 1, outstanding_tasks = 1\<rparr>,
        live_tokens = 1, destroyed = False\<rparr> \<and>
   limiter_step
     \<lparr>limiter = \<lparr>name = ''flush'', max_outstanding_tasks = 1, outstanding_tasks = 1\<rparr>,
      live_tokens = 1, destroyed = False\<rparr> OpDestroyToken =
   Inr \<lparr>limiter = \<lparr>name = ''flush'', max_outstanding_tasks = 1, outstanding_tasks = 0\<rparr>,
        live_tokens = 0, destroyed = False\<rparr> \<and>
   fst (GetToken \<lparr>name = ''flush'', max_outstanding_tasks = 1, outstanding_tasks = 1\<rparr> False []) = None \<and>
   limiter_step
     \<lparr>limiter = \<lparr>name = ''flush'', max_outstanding_tasks = 1, outstanding_tasks = 1\<rparr>,
      live_tokens = 1, destroyed = False\<rparr> (OpGetToken False []) =
   Inr \<lparr>limiter = \<lparr>name = ''flush'', max_outstanding_tasks = 1, outstanding_tasks = 1\<rparr>,
        live_tokens = 1, destroyed = False\<rparr> \<and>
   limiter_run (limiter_start ''flush'' 1)
     [OpGetToken False [], OpDestroyToken, OpDestroyLimiter] =
   Inr \<lparr>limiter = \<lparr>name = ''flush'', max_outstanding_tasks = 1, outstanding_tasks = 0\<rparr>,
        live_tokens = 0, destroyed = True\<rparr> \<and>
   sint (1 :: int32) = int 1 \<and> sint (0 :: int32) = sint (1 :: int32) - 1"
proof -
  let ?l1 = "\<lparr>name = ''flush'', max_outstanding_tasks = 1 :: int32, outstanding_tasks = 1 :: int32\<rparr>"
  let ?l0 = "\<lparr>name = ''flush'', max_outstanding_tasks = 1 :: int32, outstanding_tasks = 0 :: int32\<rparr>"
  let ?s1 = "\<lparr>limiter = ?l1, live_tokens = 1, destroyed = False\<rparr>"
  let ?s0 = "\<lparr>limiter = ?l0, live_tokens = 0, destroyed = False\<rparr>"
  let ?sd = "\<lparr>limiter = ?l0, live_tokens = 0, destroyed = True\<rparr>"
  let ?ops1 = "[OpGetToken False [True], OpGetToken False [], OpGetToken True [], OpDestroyToken]"
  let ?ops2 = "[OpGetToken False [], OpDestroyToken, OpDestroyLimiter]"
  have r1: "limiter_run (limiter_start ''flush'' 1) ?ops1 = Inr ?s1"
    by (simp add: limiter_start_def NewConcurrentTaskLimiter_def GetToken_eq
        TaskLimiterToken_destroy_def word_sle_eq word_sless_alt)
  have r2: "limiter_run (limiter_start ''flush'' 1) ?ops2 = Inr ?sd"
    by (simp add: limiter_start_def NewConcurrentTaskLimiter_def GetToken_eq
        TaskLimiterToken_destroy_def ConcurrentTaskLimiterImpl_destroy_def
        word_sle_eq word_sless_alt)
  have d: "limiter_step ?s1 OpDestroyToken = Inr ?s0"
    by (simp add: TaskLimiterToken_destroy_def word_sle_eq)
  have g: "fst (GetToken ?l1 False []) = None"
    by (simp add: GetToken_eq word_sless_alt)
  have t: "limiter_step ?s1 (OpGetToken False []) = Inr ?s1"
    by (simp add: GetToken_eq word_sless_alt)
  have a: "sint (outstanding_tasks (limiter ?s1)) = int (live_tokens ?s1)"
    using outstanding_equals_live_tokens [of "''flush''" 1 ?ops1] r1 by blast
  have b: "sint (outstanding_tasks (limiter ?s0)) = sint (outstanding_tasks (limiter ?s1)) - 1"
    using outstanding_equals_live_tokens [of "''flush''" 1 ?ops1] r1 d by blast
  have c: "outstanding_tasks (limiter ?sd) = 0 \<and> live_tokens ?sd = 0"
    using outstanding_equals_live_tokens [of "''flush''" 1 ?ops2] r2 by simp
  from a have a': "sint (1 :: int32) = int 1" by simp
  from b have b': "sint (0 :: int32) = sint (1 :: int32) - 1" by simp
  from r1 d g t r2 a' b' show ?thesis by blast
qed

section \<open>Properties of the write path: events of the preprocessing\<close>

lemma events_emit [simp]: "events (emit es db) = events db @ es"
  by (simp add: emit_def)

lemma emit_emit: "emit es' (emit es db) = emit (es @ es') db"
  by (simp add: emit_def)

lemma emit_Nil [simp]: "emit [] db = db"
  by (simp add: emit_def)

lemma new_events_emit [simp]: "new_events db (emit es db) = es"
  by (simp add: new_events_def)

lemma new_events_self [simp]: "new_events db db = []"
  by (simp add: new_events_def)

lemma events_switch_advance [simp]: "events (switch_advance cfg env db) = events db"
  by (simp add: switch_advance_def)

lemma DelayWrite_sleep_emit:
  "DelayWrite_sleep env fuel stall_end t delayed db = Some (t', delayed', db') \<Longrightarrow>
   t \<le> t' \<and> db' = emit (replicate (t' - t) (EvSleepForMicroseconds 1000)) db"
proof (induction fuel arbitrary: t delayed db)
  case 0
  then show ?case by (auto split: if_splits)
next
  case (Suc fuel)
  show ?case
  proof (cases "NeedsDelay (world env t) \<and> \<not> stall_end \<le> NowMicros (world env t)")
    case True
    with Suc.prems have "DelayWrite_sleep env fuel stall_end (Suc t) True
        (emit [EvSleepForMicroseconds 1000] db) = Some (t', delayed', db')"
      by simp
    from Suc.IH [OF this] have le: "Suc t \<le> t'"
      and eq: "db' = emit (replicate (t' - Suc t) (EvSleepForMicroseconds 1000))
                      (emit [EvSleepForMicroseconds 1000] db)"
      by simp_all
    from le have "replicate (t' - t) (EvSleepForMicroseconds 1000) =
        EvSleepForMicroseconds 1000 # replicate (t' - Suc t) (EvSleepForMicroseconds 1000)"
      by (simp add: Suc_diff_le flip: replicate_Suc)
    with le eq show ?thesis by (simp add: emit_emit)
  next
    case False
    with Suc.prems show ?thesis by auto
  qed
qed

lemma DelayWrite_wait_emit:
  "DelayWrite_wait env fuel wo t delayed db = Some (r, t', delayed', db') \<Longrightarrow>
   t \<le> t' \<and> db' = emit (concat (replicate (t' - t) stall_wait)) db"
proof (induction fuel arbitrary: t delayed db)
  case 0
  then show ?case by (auto split: if_splits)
next
  case (Suc fuel)
  show ?case
  proof (cases "ok (GetBGError (world env t)) \<and> IsStopped (world env t) \<and> \<not> no_slowdown wo")
    case True
    with Suc.prems have "DelayWrite_wait env fuel wo (Suc t) True
        (emit [EvBeginWriteStall, EvWaitBgCv, EvEndWriteStall] db) = Some (r, t', delayed', db')"
      by simp
    from Suc.IH [OF this] have le: "Suc t \<le> t'"
      and eq: "db' = emit (concat (replicate (t' - Suc t) stall_wait))
                      (emit [EvBeginWriteStall, EvWaitBgCv, EvEndWriteStall] db)"
      by simp_all
    from le have "replicate (t' - t) stall_wait = stall_wait # replicate (t' - Suc t) stall_wait"
      by (simp add: Suc_diff_le flip: replicate_Suc)
    with le eq show ?thesis by (simp add: emit_emit stall_wait_def)
  next
    case False
    with Suc.prems show ?thesis by (auto split: if_splits)
  qed
qed

lemma wait_log_sync_emit:
  "wait_log_sync env fuel i db = Some db' \<Longrightarrow>
   \<exists>k. db' = emit (replicate k EvWaitLogSyncCv) db"
proof (induction fuel arbitrary: i db)
  case 0
  then have "db' = emit (replicate 0 EvWaitLogSyncCv) db" by (auto split: if_splits)
  then show ?case by blast
next
  case (Suc fuel)
  show ?case
  proof (cases "front_log_getting_synced env i")
    case True
    with Suc.prems have "wait_log_sync env fuel (Suc i) (emit [EvWaitLogSyncCv] db) = Some db'"
      by simp
    from Suc.IH [OF this] obtain k where
      "db' = emit (replicate k EvWaitLogSyncCv) (emit [EvWaitLogSyncCv] db)" by blast
    then have "db' = emit (replicate (Suc k) EvWaitLogSyncCv) db"
      by (simp add: emit_emit)
    then show ?thesis by blast
  next
    case False
    with Suc.prems have "db' = emit (replicate 0 EvWaitLogSyncCv) db" by simp
    then show ?thesis by blast
  qed
qed

lemma DelayWrite_tail_adds:
  assumes "DelayWrite_tail env fuel wo t delayed db = Some (s, db')"
  shows "\<exists>es. db' = emit es db \<and> set es \<subseteq> stall_events"
proof -
  from assms obtain r t' d' where
    w: "DelayWrite_wait env fuel wo t delayed db = Some (r, t', d', db')"
    by (auto simp: DelayWrite_tail_def Let_def split: option.splits prod.splits)
  from DelayWrite_wait_emit [OF w]
  have "db' = emit (concat (replicate (t' - t) stall_wait)) db" by simp
  moreover have "set (concat (replicate (t' - t) stall_wait)) \<subseteq> stall_events"
    by (auto simp: stall_wait_def stall_events_def)
  ultimately show ?thesis by blast
qed

lemma DelayWrite_adds:
  assumes "DelayWrite env fuel n wo db = Some (s, db')"
  shows "\<exists>es. db' = emit es db \<and> set es \<subseteq> stall_events"
proof (cases "0 < GetDelay env n")
  case False
  with assms show ?thesis
    by (auto simp: DelayWrite_def Let_def dest: DelayWrite_tail_adds)
next
  case True
  show ?thesis
  proof (cases "no_slowdown wo")
    case True
    with \<open>0 < GetDelay env n\<close> assms have "db' = emit [] db"
      by (simp add: DelayWrite_def Let_def)
    then show ?thesis by (metis empty_set empty_subsetI)
  next
    case False
    with \<open>0 < GetDelay env n\<close> assms obtain t d db1 where
      sl: "DelayWrite_sleep env fuel (NowMicros (world env 0) + GetDelay env n) 0 False
             (emit [EvBeginWriteStall] db) = Some (t, d, db1)"
      and tl: "DelayWrite_tail env fuel wo t d (emit [EvEndWriteStall] db1) = Some (s, db')"
      by (auto simp: DelayWrite_def Let_def split: option.splits)
    from DelayWrite_sleep_emit [OF sl]
    have db1: "db1 = emit (replicate t (EvSleepForMicroseconds 1000)) (emit [EvBeginWriteStall] db)"
      by simp
    from DelayWrite_tail_adds [OF tl] obtain es where
      es: "db' = emit es (emit [EvEndWriteStall] db1)" "set es \<subseteq> stall_events" by blast
    from es(1) db1 have "db' = emit (EvBeginWriteStall #
        replicate t (EvSleepForMicroseconds 1000) @ EvEndWriteStall # es) db"
      by (simp add: emit_emit)
    moreover from es(2) have "set (EvBeginWriteStall #
        replicate t (EvSleepForMicroseconds 1000) @ EvEndWriteStall # es) \<subseteq> stall_events"
      by (auto simp: stall_events_def)
    ultimately show ?thesis by blast
  qed
qed

lemma ok_OK [simp]: "ok OK"
  by (simp add: ok_def OK_def)

lemma PreprocessWrite_switch_wal_events:
  "events (snd (PreprocessWrite_switch_wal cfg env db)) =
     events db @ (if triggers_switch_wal cfg env db then [EvWaitForPendingWrites, EvSwitchWAL] else [])"
  by (auto simp: PreprocessWrite_switch_wal_def triggers_switch_wal_def Let_def)

lemma PreprocessWrite_flushes_events:
  "\<exists>es. events (snd (PreprocessWrite_flushes cfg env r1)) = events (snd r1) @ es \<and>
        set es \<subseteq> {EvWaitForPendingWrites, EvHandleWriteBufferFull, EvTrimMemtableHistory,
                  EvScheduleFlushes}"
proof -
  let ?A = "{EvWaitForPendingWrites, EvHandleWriteBufferFull, EvTrimMemtableHistory,
             EvScheduleFlushes}"
  define r2 where "r2 = (if ok (fst r1) \<and> ShouldFlush env
                then (HandleWriteBufferFull_status env,
                      switch_advance cfg env
                        (emit [EvWaitForPendingWrites, EvHandleWriteBufferFull] (snd r1)))
                else r1)"
  define r3 where "r3 = (if ok (fst r2) \<and> \<not> trim_history_scheduler_Empty env
                then (TrimMemtableHistory_status env, emit [EvTrimMemtableHistory] (snd r2))
                else r2)"
  have e2: "\<exists>es. events (snd r2) = events (snd r1) @ es \<and> set es \<subseteq> ?A"
    by (auto simp: r2_def)
  have e3: "\<exists>es. events (snd r3) = events (snd r2) @ es \<and> set es \<subseteq> ?A"
    by (auto simp: r3_def)
  have e4: "\<exists>es. events (snd (PreprocessWrite_flushes cfg env r1)) = events (snd r3) @ es \<and> set es \<subseteq> ?A"
    unfolding PreprocessWrite_flushes_def Let_def r2_def [symmetric] r3_def [symmetric]
    by auto
  from e2 obtain a where a: "events (snd r2) = events (snd r1) @ a" "set a \<subseteq> ?A" by blast
  from e3 obtain b where b: "events (snd r3) = events (snd r2) @ b" "set b \<subseteq> ?A" by blast
  from e4 obtain c where c: "events (snd (PreprocessWrite_flushes cfg env r1)) = events (snd r3) @ c"
    "set c \<subseteq> ?A" by blast
  from a(1) b(1) c(1) have "events (snd (PreprocessWrite_flushes cfg env r1)) = events (snd r1) @ (a @ b @ c)"
    by simp
  moreover from a(2) b(2) c(2) have "set (a @ b @ c) \<subseteq> ?A"
    by simp
  ultimately show ?thesis by blast
qed

lemma PreprocessWrite_delay_adds:
  "PreprocessWrite_delay env fuel wo r4 = Some (s, db') \<Longrightarrow>
   \<exists>es. db' = emit es (snd r4) \<and> set es \<subseteq> stall_events"
proof -
  assume a: "PreprocessWrite_delay env fuel wo r4 = Some (s, db')"
  show ?thesis
  proof (cases "ok (fst r4) \<and> (IsStopped (world env 0) \<or> NeedsDelay (world env 0))")
    case True
    with a show ?thesis
      by (auto simp: PreprocessWrite_delay_def dest: DelayWrite_adds)
  next
    case False
    with a have "db' = emit [] (snd r4)"
      by (auto simp: PreprocessWrite_delay_def)
    then show ?thesis by (metis empty_set empty_subsetI)
  qed
qed

lemma PreprocessWrite_log_sync_adds:
  assumes "PreprocessWrite_log_sync env fuel nls r5 = Some (s, nls', db')"
  shows "\<exists>es. db' = emit es (snd r5) \<and> set es \<subseteq> {EvWaitLogSyncCv, EvSetGettingSynced}"
proof (cases "ok (fst r5) \<and> nls")
  case True
  with assms obtain db6 where w: "wait_log_sync env fuel 0 (snd r5) = Some db6"
    and d: "db' = emit [EvSetGettingSynced] db6"
    by (auto simp: PreprocessWrite_log_sync_def split: option.splits)
  from wait_log_sync_emit [OF w] obtain k where "db6 = emit (replicate k EvWaitLogSyncCv) (snd r5)"
    by blast
  with d have "db' = emit (replicate k EvWaitLogSyncCv @ [EvSetGettingSynced]) (snd r5)"
    by (simp add: emit_emit)
  moreover have "set (replicate k EvWaitLogSyncCv @ [EvSetGettingSynced])
      \<subseteq> {EvWaitLogSyncCv, EvSetGettingSynced}"
    by auto
  ultimately show ?thesis by blast
next
  case False
  with assms have "db' = emit [] (snd r5)"
    by (auto simp: PreprocessWrite_log_sync_def)
  then show ?thesis by (metis empty_set empty_subsetI)
qed

lemma PreprocessWrite_events:
  assumes "PreprocessWrite cfg env fuel wo nls db = Some (st, nls', db')"
  shows "\<exists>es. events db' = events db @
           (if triggers_switch_wal cfg env db then [EvWaitForPendingWrites, EvSwitchWAL] else []) @ es \<and>
           set es \<subseteq> {EvWaitForPendingWrites, EvHandleWriteBufferFull, EvTrimMemtableHistory,
                  EvScheduleFlushes, EvWaitLogSyncCv, EvSetGettingSynced} \<union> stall_events"
proof -
  let ?r1 = "PreprocessWrite_switch_wal cfg env db"
  let ?r4 = "PreprocessWrite_flushes cfg env ?r1"
  from assms obtain r5 where
    d: "PreprocessWrite_delay env fuel wo ?r4 = Some r5"
    and l: "PreprocessWrite_log_sync env fuel nls r5 = Some (st, nls', db')"
    by (auto simp: PreprocessWrite_def split: option.splits)
  from PreprocessWrite_flushes_events [of cfg env ?r1] obtain e1 where
    e1: "events (snd ?r4) = events (snd ?r1) @ e1"
      "set e1 \<subseteq> {EvWaitForPendingWrites, EvHandleWriteBufferFull, EvTrimMemtableHistory,
                  EvScheduleFlushes}"
    by blast
  from PreprocessWrite_delay_adds [of env fuel wo ?r4 "fst r5" "snd r5"] d obtain e2 where
    e2: "snd r5 = emit e2 (snd ?r4)" "set e2 \<subseteq> stall_events"
    by auto
  from PreprocessWrite_log_sync_adds [OF l] obtain e3 where
    e3: "db' = emit e3 (snd r5)" "set e3 \<subseteq> {EvWaitLogSyncCv, EvSetGettingSynced}"
    by blast
  have "events db' = events db @
      (if triggers_switch_wal cfg env db then [EvWaitForPendingWrites, EvSwitchWAL] else []) @
      (e1 @ e2 @ e3)"
    using e1(1) e2(1) e3(1) by (simp add: PreprocessWrite_switch_wal_events)
  moreover have "set (e1 @ e2 @ e3) \<subseteq> {EvWaitForPendingWrites, EvHandleWriteBufferFull,
      EvTrimMemtableHistory, EvScheduleFlushes, EvWaitLogSyncCv, EvSetGettingSynced} \<union> stall_events"
    using e1(2) e2(2) e3(2) by auto
  ultimately show ?thesis by blast
qed

section \<open>Properties of the write path: the steps of the leader\<close>

lemma CheckCallback_fresh:
  "fresh w \<Longrightarrow> fst (CheckCallback w) \<longleftrightarrow> \<not> CallbackFailed (checked w)"
  by (auto simp: CheckCallback_def CallbackFailed_def checked_def fresh_def Let_def
      split: option.splits)

lemma checked_fields [simp]:
  "batch (checked w) = batch w" "batch_cnt (checked w) = batch_cnt w"
  "disable_memtable (checked w) = disable_memtable w" "status (checked w) = status w"
  "sequence (checked w) = sequence w" "pre_release_callback (checked w) = pre_release_callback w"
  "callback (checked w) = callback w" "log_used (checked w) = log_used w"
  by (simp_all add: checked_def CheckCallback_def Let_def split: option.splits)

lemma WriteImpl_check_group_eq:
  "list_all fresh g \<Longrightarrow>
   WriteImpl_check_group g (tc, vb, par, cnt) =
     (map checked g,
      tc + sum_list (map (consumes False) (map checked g)),
      vb + sum_list (map (consumes True) (map checked g)),
      par \<and> list_all (\<lambda>w. ShouldWriteToMemtable w \<longrightarrow> \<not> HasMerge (batch w)) (map checked g),
      cnt + sum_list (map (\<lambda>w. if \<not> CallbackFailed w \<and> pre_release_callback w \<noteq> None then 1 else 0)
              (map checked g)))"
proof (induction g arbitrary: tc vb par cnt)
  case Nil
  then show ?case by simp
next
  case (Cons w ws)
  from Cons.prems have fw: "fresh w" and fws: "list_all fresh ws" by simp_all
  obtain p w' where cc: "CheckCallback w = (p, w')" by (cases "CheckCallback w")
  then have w': "w' = checked w" by (simp add: checked_def)
  from CheckCallback_fresh [OF fw] cc w' have p: "p \<longleftrightarrow> \<not> CallbackFailed (checked w)" by simp
  have sw: "ShouldWriteToMemtable (checked w) \<Longrightarrow> \<not> CallbackFailed (checked w)"
    by (simp add: ShouldWriteToMemtable_def)
  show ?case
    using sw by (simp add: cc w' p Cons.IH [OF fws] consumes_def Let_def ac_simps)
qed

lemma WriteImpl_pre_release_no_break:
  "WriteImpl_pre_release spb dm cnt g pos next_sequence idx = (g', es, None) \<Longrightarrow>
   g' = assigned spb next_sequence g"
proof (induction g arbitrary: pos next_sequence idx g' es)
  case Nil
  then show ?case by simp
next
  case (Cons w ws)
  have sw: "ShouldWriteToMemtable (w\<lparr>sequence := next_sequence\<rparr>) = ShouldWriteToMemtable w"
    by (simp add: ShouldWriteToMemtable_def CallbackFailed_def)
  show ?case
  proof (cases "CallbackFailed w")
    case True
    with Cons.prems Cons.IH show ?thesis
      by (auto split: prod.splits)
  next
    case False
    with Cons.prems Cons.IH show ?thesis
      by (auto simp: Let_def sw consumes_def split: prod.splits option.splits if_splits)
  qed
qed

lemma length_assigned [simp]: "length (assigned spb n g) = length g"
  by (induction g arbitrary: n) auto

lemma assigned_nth:
  "i < length g \<Longrightarrow>
   assigned spb n g ! i =
     (if CallbackFailed (g ! i) then g ! i
      else (g ! i)\<lparr>sequence := n + sum_list (map (consumes spb) (take i g))\<rparr>)"
proof (induction g arbitrary: i n)
  case Nil
  then show ?case by simp
next
  case (Cons w ws)
  show ?case
  proof (cases i)
    case 0
    then show ?thesis by simp
  next
    case (Suc j)
    with Cons.prems have "j < length ws" by simp
    from Cons.IH [OF this] Suc show ?thesis
      by (simp add: consumes_def ac_simps)
  qed
qed

lemma stamped_refl [simp]: "stamped w w"
proof -
  have "w = w\<lparr>log_used := log_used w,
              batch := (batch w)\<lparr>batch_sequence := batch_sequence (batch w)\<rparr>\<rparr>"
    by simp
  then show ?thesis unfolding stamped_def by blast
qed

lemma stamped_trans: "stamped a b \<Longrightarrow> stamped b c \<Longrightarrow> stamped a c"
proof -
  assume "stamped a b" and "stamped b c"
  then obtain lu bs lu' bs' where
    b: "b = a\<lparr>log_used := lu, batch := (batch a)\<lparr>batch_sequence := bs\<rparr>\<rparr>"
    and c: "c = b\<lparr>log_used := lu', batch := (batch b)\<lparr>batch_sequence := bs'\<rparr>\<rparr>"
    unfolding stamped_def by blast
  then have "c = a\<lparr>log_used := lu', batch := (batch a)\<lparr>batch_sequence := bs'\<rparr>\<rparr>"
    by simp
  then show ?thesis unfolding stamped_def by blast
qed

lemma stamped_log_used [simp]: "stamped w (w\<lparr>log_used := n\<rparr>)"
proof -
  have "w\<lparr>log_used := n\<rparr> =
      w\<lparr>log_used := n, batch := (batch w)\<lparr>batch_sequence := batch_sequence (batch w)\<rparr>\<rparr>"
    by simp
  then show ?thesis unfolding stamped_def by blast
qed

lemma stamped_batch [simp]: "stamped w (w\<lparr>batch := SetSequence (batch w) s\<rparr>)"
proof -
  have "w\<lparr>batch := SetSequence (batch w) s\<rparr> =
      w\<lparr>log_used := log_used w, batch := (batch w)\<lparr>batch_sequence := s\<rparr>\<rparr>"
    by (simp add: SetSequence_def)
  then show ?thesis unfolding stamped_def by blast
qed

lemma list_all2_stamped_refl [simp]: "list_all2 stamped g g"
  by (simp add: list_all2_refl)

lemma list_all2_stamped_trans:
  "list_all2 stamped a b \<Longrightarrow> list_all2 stamped b c \<Longrightarrow> list_all2 stamped a c"
  by (rule list_all2_trans [of stamped stamped stamped]) (auto intro: stamped_trans)

lemma stamped_fields:
  assumes "stamped w w'"
  shows "CallbackFailed w' = CallbackFailed w" "ShouldWriteToMemtable w' = ShouldWriteToMemtable w"
    "consumes spb w' = consumes spb w" "pre_release_callback w' = pre_release_callback w"
    "sequence w' = sequence w" "status w' = status w" "batch_cnt w' = batch_cnt w"
    "disable_memtable w' = disable_memtable w" "Count (batch w') = Count (batch w)"
    "callback w' = callback w" "callback_status w' = callback_status w"
proof -
  from assms obtain lu bs where
    w': "w' = w\<lparr>log_used := lu, batch := (batch w)\<lparr>batch_sequence := bs\<rparr>\<rparr>"
    unfolding stamped_def by blast
  show "CallbackFailed w' = CallbackFailed w" "ShouldWriteToMemtable w' = ShouldWriteToMemtable w"
    "consumes spb w' = consumes spb w" "pre_release_callback w' = pre_release_callback w"
    "sequence w' = sequence w" "status w' = status w" "batch_cnt w' = batch_cnt w"
    "disable_memtable w' = disable_memtable w" "Count (batch w') = Count (batch w)"
    "callback w' = callback w" "callback_status w' = callback_status w"
    by (simp_all add: w' CallbackFailed_def ShouldWriteToMemtable_def consumes_def Count_def)
qed

lemma MergeBatch_in_place:
  "MergeBatch g tmp = (True, m, n, c) \<Longrightarrow> length g = 1"
  by (auto simp: MergeBatch_def split: if_splits prod.splits)

lemma set_log_used_stamped:
  "(in_place \<longrightarrow> length g = 1) \<Longrightarrow> list_all2 stamped g (set_log_used in_place k n g)"
  by (cases g) (auto simp: set_log_used_def list_all2_map2 list_all2_refl)

lemma length_set_log_used:
  "(in_place \<longrightarrow> length g = 1) \<Longrightarrow> length (set_log_used in_place k n g) = length g"
  by (cases g) (auto simp: set_log_used_def)

lemma stamp_leader_stamped:
  "(in_place \<longrightarrow> length g = 1 \<and> (\<exists>s. m = SetSequence (batch (hd g)) s)) \<Longrightarrow>
   list_all2 stamped g (stamp_leader in_place m g)"
  by (cases g) (auto simp: stamp_leader_def list_all2_refl)

lemma sync_logs_events: "sync_logs ss io = (io', es) \<Longrightarrow> set es \<subseteq> {EvSyncLog}"
proof (induction ss arbitrary: io io' es)
  case Nil
  then show ?case by simp
next
  case (Cons s ss)
  then show ?case
    by (fastforce split: if_splits prod.splits)
qed

lemma WriteToWAL_batch_eq:
  "WriteToWAL_batch env m db =
     (AddRecord_status env, of_nat (12 + length (rep m)),
      (emit [EvAddRecord m] db)\<lparr>total_log_size := total_log_size db + of_nat (12 + length (rep m)),
                                log_empty := False\<rparr>)"
  by (simp add: WriteToWAL_batch_def Let_def emit_def)

lemma cache_state_fields [simp]:
  "events (cache_state c db) = events db"
  "last_sequence (cache_state c db) = last_sequence db"
  "last_allocated_sequence (cache_state c db) = last_allocated_sequence db"
  by (simp_all add: cache_state_def split: option.splits)

lemma emit_sequences [simp]:
  "last_sequence (emit es db) = last_sequence db"
  "last_allocated_sequence (emit es db) = last_allocated_sequence db"
  by (simp_all add: emit_def)

lemma MergeBatch_in_place_batch:
  "MergeBatch g tmp = (True, m, n, c) \<Longrightarrow> m = batch (hd g)"
  by (auto simp: MergeBatch_def split: if_splits prod.splits)

lemma merged_group_stamped:
  assumes "MergeBatch g tmp = (ip, m, n, c)"
  shows "list_all2 stamped g (stamp_leader ip (SetSequence m s) (set_log_used ip n lf g))"
proof (cases ip)
  case True
  with assms have len: "length g = 1" and m: "m = batch (hd g)"
    by (auto dest: MergeBatch_in_place MergeBatch_in_place_batch)
  from len obtain w where g: "g = [w]" by (cases g) auto
  have "stamped w (w\<lparr>log_used := lf, batch := SetSequence (batch w) s\<rparr>)"
    using stamped_trans [OF stamped_log_used [of w lf]
        stamped_batch [of "w\<lparr>log_used := lf\<rparr>" s]]
    by simp
  with True g m show ?thesis
    by (simp add: stamp_leader_def set_log_used_def)
next
  case False
  then show ?thesis
    by (auto simp: stamp_leader_def set_log_used_def list_all2_map2 list_all2_refl)
qed

lemma WriteToWAL_props:
  assumes "WriteToWAL env g nls nlds s db = (io_s, g', db')"
  shows "list_all2 stamped g g'"
    and "\<exists>es. events db' = events db @ es \<and> list_all is_wal_event es"
    and "last_sequence db' = last_sequence db"
    and "last_allocated_sequence db' = last_allocated_sequence db"
proof -
  obtain ip m n c where mb: "MergeBatch g (tmp_batch db) = (ip, m, n, c)"
    by (cases "MergeBatch g (tmp_batch db)")
  obtain io1 es1 where sl: "sync_logs (Sync_status env) (AddRecord_status env) = (io1, es1)"
    by (cases "sync_logs (Sync_status env) (AddRecord_status env)")
  from sync_logs_events [OF sl] have es1: "list_all is_wal_event es1"
    by (auto simp: list_all_iff)
  from assms have g': "g' = stamp_leader ip (SetSequence m s) (set_log_used ip n (logfile_number db) g)"
    by (simp add: WriteToWAL_def mb Let_def WriteToWAL_batch_eq)
  with merged_group_stamped [OF mb] show "list_all2 stamped g g'"
    by simp
  from assms show "\<exists>es. events db' = events db @ es \<and> list_all is_wal_event es"
    using es1
    by (auto simp: WriteToWAL_def mb sl Let_def WriteToWAL_batch_eq split: if_splits)
  from assms show "last_sequence db' = last_sequence db"
    by (auto simp: WriteToWAL_def mb sl Let_def WriteToWAL_batch_eq split: if_splits)
  from assms show "last_allocated_sequence db' = last_allocated_sequence db"
    by (auto simp: WriteToWAL_def mb sl Let_def WriteToWAL_batch_eq split: if_splits)
qed

lemma ConcurrentWriteToWAL_props:
  assumes "ConcurrentWriteToWAL env g seq_inc db = (io_s, last0, g', db')"
  shows "list_all2 stamped g g'"
    and "\<exists>es. events db' = events db @ es \<and> list_all is_wal_event es"
    and "last_sequence db' = last_sequence db"
    and "last_allocated_sequence db' = last_allocated_sequence db + seq_inc"
    and "last0 = last_allocated_sequence db"
proof -
  obtain ip m n c where mb: "MergeBatch g Clear = (ip, m, n, c)"
    by (cases "MergeBatch g Clear")
  from assms have g': "g' = stamp_leader ip (SetSequence m (last_allocated_sequence db + 1))
      (set_log_used ip n (logfile_number db) g)"
    by (auto simp: ConcurrentWriteToWAL_def mb Let_def WriteToWAL_batch_eq
        FetchAddLastAllocatedSequence_def)
  with merged_group_stamped [OF mb] show "list_all2 stamped g g'"
    by simp
  from assms show "\<exists>es. events db' = events db @ es \<and> list_all is_wal_event es"
    by (auto simp: ConcurrentWriteToWAL_def mb Let_def WriteToWAL_batch_eq
        FetchAddLastAllocatedSequence_def emit_def)
  from assms show "last_sequence db' = last_sequence db"
    by (auto simp: ConcurrentWriteToWAL_def mb Let_def WriteToWAL_batch_eq
        FetchAddLastAllocatedSequence_def emit_def)
  from assms show "last_allocated_sequence db' = last_allocated_sequence db + seq_inc"
    by (auto simp: ConcurrentWriteToWAL_def mb Let_def WriteToWAL_batch_eq
        FetchAddLastAllocatedSequence_def emit_def)
  from assms show "last0 = last_allocated_sequence db"
    by (auto simp: ConcurrentWriteToWAL_def mb Let_def WriteToWAL_batch_eq
        FetchAddLastAllocatedSequence_def)
qed

lemma WriteImpl_wal_props:
  assumes "WriteImpl_wal cfg env wo nls nlds last_seq seq_inc g db = (io_s, last1, g', db')"
  shows "list_all2 stamped g g'"
    and "\<exists>es. events db' = events db @ es \<and> list_all is_wal_event es"
    and "last_sequence db' = last_sequence db"
    and "last_allocated_sequence db' =
           (if two_write_queues cfg then last_allocated_sequence db + seq_inc
            else last_allocated_sequence db)"
    and "last1 = (if two_write_queues cfg then last_allocated_sequence db else last_seq)"
    and "disableWAL wo \<longrightarrow> events db' = events db \<and> io_s = OK"
proof -
  consider (a) "\<not> two_write_queues cfg" "\<not> disableWAL wo"
    | (b) "\<not> two_write_queues cfg" "disableWAL wo"
    | (c) "two_write_queues cfg" "\<not> disableWAL wo"
    | (d) "two_write_queues cfg" "disableWAL wo"
    by blast
  then have "list_all2 stamped g g' \<and>
      (\<exists>es. events db' = events db @ es \<and> list_all is_wal_event es) \<and>
      last_sequence db' = last_sequence db \<and>
      last_allocated_sequence db' =
           (if two_write_queues cfg then last_allocated_sequence db + seq_inc
            else last_allocated_sequence db) \<and>
      last1 = (if two_write_queues cfg then last_allocated_sequence db else last_seq) \<and>
      (disableWAL wo \<longrightarrow> events db' = events db \<and> io_s = OK)"
  proof cases
    case a
    with assms have
      w: "WriteToWAL env g nls nlds (last_seq + 1) db = (io_s, g', db')" and l: "last1 = last_seq"
      by (auto simp: WriteImpl_wal_def split: prod.splits)
    with a WriteToWAL_props [OF w] show ?thesis by simp
  next
    case b
    with assms show ?thesis
      by (auto simp: WriteImpl_wal_def)
  next
    case c
    with assms have w: "ConcurrentWriteToWAL env g seq_inc db = (io_s, last1, g', db')"
      by (auto simp: WriteImpl_wal_def)
    with c ConcurrentWriteToWAL_props [OF w] show ?thesis by simp
  next
    case d
    with assms show ?thesis
      by (auto simp: WriteImpl_wal_def FetchAddLastAllocatedSequence_def)
  qed
  then show "list_all2 stamped g g'"
    and "\<exists>es. events db' = events db @ es \<and> list_all is_wal_event es"
    and "last_sequence db' = last_sequence db"
    and "last_allocated_sequence db' =
           (if two_write_queues cfg then last_allocated_sequence db + seq_inc
            else last_allocated_sequence db)"
    and "last1 = (if two_write_queues cfg then last_allocated_sequence db else last_seq)"
    and "disableWAL wo \<longrightarrow> events db' = events db \<and> io_s = OK"
    by blast+
qed

lemma seq_only_refl [simp]: "seq_only w w"
proof -
  have "w = w\<lparr>sequence := sequence w\<rparr>" by simp
  then show ?thesis unfolding seq_only_def by blast
qed

lemma seq_only_upd [simp]: "seq_only w (w\<lparr>sequence := s\<rparr>)"
  unfolding seq_only_def by blast

lemma seq_only_fields:
  assumes "seq_only w w'"
  shows "CallbackFailed w' = CallbackFailed w" "pre_release_callback w' = pre_release_callback w"
    "status w' = status w" "consumes spb w' = consumes spb w" "log_used w' = log_used w"
    "batch w' = batch w"
proof -
  from assms obtain s where w': "w' = w\<lparr>sequence := s\<rparr>"
    unfolding seq_only_def by blast
  show "CallbackFailed w' = CallbackFailed w" "pre_release_callback w' = pre_release_callback w"
    "status w' = status w" "consumes spb w' = consumes spb w" "log_used w' = log_used w"
    "batch w' = batch w"
    by (simp_all add: w' CallbackFailed_def consumes_def ShouldWriteToMemtable_def)
qed

lemma WriteImpl_pre_release_props:
  "WriteImpl_pre_release spb dm cnt g pos next_sequence idx = (g', es, broke) \<Longrightarrow>
   list_all2 seq_only g g' \<and> list_all is_pre_release es \<and>
   pre_release_calls es = expected_calls g' pos \<and>
   (case broke of None \<Rightarrow> True | Some s \<Rightarrow> \<not> ok s)"
proof (induction g arbitrary: pos next_sequence idx g' es broke)
  case Nil
  then show ?case by simp
next
  case (Cons w ws)
  have cf: "CallbackFailed (w\<lparr>sequence := next_sequence\<rparr>) = CallbackFailed w"
    by (simp add: CallbackFailed_def)
  show ?case
  proof (cases "CallbackFailed w")
    case True
    with Cons.prems obtain ws' where
      r: "WriteImpl_pre_release spb dm cnt ws (Suc pos) next_sequence idx = (ws', es, broke)"
      and g': "g' = w # ws'"
      by (auto split: prod.splits)
    from Cons.IH [OF r] True g' show ?thesis by simp
  next
    case False
    let ?w = "w\<lparr>sequence := next_sequence\<rparr>"
    let ?n = "if spb then next_sequence + batch_cnt ?w
              else if ShouldWriteToMemtable ?w then next_sequence + Count (batch ?w)
              else next_sequence"
    show ?thesis
    proof (cases "pre_release_callback w")
      case None
      with False Cons.prems obtain ws' where
        r: "WriteImpl_pre_release spb dm cnt ws (Suc pos) ?n idx = (ws', es, broke)"
        and g': "g' = ?w # ws'"
        by (auto simp: Let_def split: prod.splits)
      from Cons.IH [OF r] False None g' cf show ?thesis by simp
    next
      case (Some s)
      show ?thesis
      proof (cases "ok s")
        case True
        with False Some Cons.prems obtain ws' es' where
          r: "WriteImpl_pre_release spb dm cnt ws (Suc pos) ?n (idx + 1) = (ws', es', broke)"
          and g': "g' = ?w # ws'"
          and es: "es = EvPreReleaseCallback pos next_sequence dm (log_used w) idx cnt # es'"
          by (auto simp: Let_def split: prod.splits)
        from Cons.IH [OF r] False Some True g' es cf show ?thesis by simp
      next
        case nok: False
        with False Some Cons.prems have
          g': "g' = ?w # ws"
          and es: "es = [EvPreReleaseCallback pos next_sequence dm (log_used w) idx cnt]"
          and b: "broke = Some s"
          by (auto simp: Let_def)
        with False Some nok cf show ?thesis
          by (simp add: list_all2_refl)
      qed
    qed
  qed
qed

lemma expected_calls_stamped:
  "list_all2 seq_only a b \<Longrightarrow> map sequence a = map sequence b \<Longrightarrow>
   expected_calls a pos = expected_calls b pos"
proof (induction a b arbitrary: pos rule: list_all2_induct)
  case Nil
  then show ?case by simp
next
  case (Cons x xs y ys)
  then show ?case
    by (simp add: seq_only_fields)
qed

lemma expected_calls_status [simp]:
  "expected_calls ((w\<lparr>status := s\<rparr>) # ws) pos = expected_calls (w # ws) pos"
  by (simp add: CallbackFailed_def)

lemma expected_calls_mem:
  "c \<in> set (expected_calls g pos) \<Longrightarrow>
   pos \<le> fst c \<and> fst c < pos + length g \<and> snd c = sequence (g ! (fst c - pos)) \<and>
   \<not> CallbackFailed (g ! (fst c - pos)) \<and> pre_release_callback (g ! (fst c - pos)) \<noteq> None"
proof (induction g arbitrary: pos)
  case Nil
  then show ?case by simp
next
  case (Cons w ws)
  from Cons.prems consider
    (head) "c = (pos, sequence w)" "\<not> CallbackFailed w" "pre_release_callback w \<noteq> None"
    | (tail) "c \<in> set (expected_calls ws (Suc pos))"
    by (auto split: if_splits)
  then show ?case
  proof cases
    case head
    then show ?thesis by simp
  next
    case tail
    from Cons.IH [OF tail] have ih: "Suc pos \<le> fst c" "fst c < Suc pos + length ws"
      "snd c = sequence (ws ! (fst c - Suc pos))"
      "\<not> CallbackFailed (ws ! (fst c - Suc pos))"
      "pre_release_callback (ws ! (fst c - Suc pos)) \<noteq> None"
      by simp_all
    from ih(1) have "fst c - pos = Suc (fst c - Suc pos)" by arith
    with ih show ?thesis by simp
  qed
qed

lemma expected_calls_sorted: "sorted_wrt (<) (map fst (expected_calls g pos))"
proof (induction g arbitrary: pos)
  case Nil
  then show ?case by simp
next
  case (Cons w ws)
  have "\<And>c. c \<in> set (expected_calls ws (Suc pos)) \<Longrightarrow> pos < fst c"
    using expected_calls_mem [of _ ws "Suc pos"] by fastforce
  with Cons.IH [of "Suc pos"] show ?case
    by auto
qed

lemma WriteImpl_memtable_props:
  assumes "WriteImpl_memtable env par cur g db = (g', ipg, db')" and "g \<noteq> []"
  shows "\<exists>es. db' = emit es db \<and> list_all is_memtable_event es \<and> es \<noteq> []"
    and "map sequence g' = map sequence g"
    and "expected_calls g' pos = expected_calls g pos"
    and "length g' = length g"
    and "CallbackFailed (hd g') = CallbackFailed (hd g)"
    and "ipg = par"
proof -
  from assms(2) obtain w ws where g: "g = w # ws" by (cases g) auto
  from assms(1) show "\<exists>es. db' = emit es db \<and> list_all is_memtable_event es \<and> es \<noteq> []"
    by (auto simp: WriteImpl_memtable_def Let_def g split: if_splits)
  from assms(1) show "map sequence g' = map sequence g"
    by (auto simp: WriteImpl_memtable_def Let_def g split: if_splits)
  from assms(1) show "expected_calls g' pos = expected_calls g pos"
    by (auto simp: WriteImpl_memtable_def Let_def g CallbackFailed_def split: if_splits)
  from assms(1) show "length g' = length g"
    by (auto simp: WriteImpl_memtable_def Let_def g split: if_splits)
  from assms(1) show "CallbackFailed (hd g') = CallbackFailed (hd g)"
    by (auto simp: WriteImpl_memtable_def Let_def g CallbackFailed_def split: if_splits)
  from assms(1) show "ipg = par"
    by (auto simp: WriteImpl_memtable_def Let_def g split: if_splits)
qed

lemma unpersisted_fields [simp]:
  "events (db\<lparr>has_unpersisted_data := b\<rparr>) = events db"
  by simp

lemma WriteImpl_commit_unfold:
  assumes fr: "list_all fresh g"
  shows "WriteImpl_commit cfg env wo dm nls nlds last_seq g db =
     (case WriteImpl_wal cfg env wo nls nlds last_seq (group_seq_inc cfg g) (map checked g)
             (if disableWAL wo then db\<lparr>has_unpersisted_data := True\<rparr> else db) of
        (io_s, last1, g2, db2) \<Rightarrow>
          (case (if ok io_s
                 then WriteImpl_pre_release (seq_per_batch cfg) dm (group_callback_cnt g) g2 0
                        (last1 + 1) 0
                 else (g2, [], None)) of
             (g3, es, broke) \<Rightarrow>
               (case (if ok (case broke of None \<Rightarrow> io_s | Some ws_status \<Rightarrow> ws_status)
                      then WriteImpl_memtable env (group_parallel cfg g) (last1 + 1) g3 (emit es db2)
                      else (g3, False, emit es db2)) of
                  (g4, ipg, db4) \<Rightarrow>
                    (case broke of None \<Rightarrow> io_s | Some ws_status \<Rightarrow> ws_status,
                     io_s, last1 + group_seq_inc cfg g, g4, ipg, db4))))"
  unfolding WriteImpl_commit_def
  by (simp add: WriteImpl_check_group_eq [OF fr] group_seq_inc_def group_parallel_def
      group_callback_cnt_def Let_def split: prod.splits)

lemma assigned_stamped:
  "list_all2 stamped a b \<Longrightarrow>
   map sequence (assigned spb n b) = map sequence (assigned spb n a)"
proof (induction a b arbitrary: n rule: list_all2_induct)
  case Nil
  then show ?case by simp
next
  case (Cons x xs y ys)
  then show ?case
    by (simp add: stamped_fields)
qed

lemma map_sequence_checked [simp]: "map sequence (map checked g) = map sequence g"
  by (induction g) simp_all

lemma commit_pieces:
  assumes fr: "list_all fresh g" and ne: "g \<noteq> []"
    and c: "WriteImpl_commit cfg env wo dm nls nlds last_seq g db = (st, io_s, last2, g4, ipg, db4)"
  obtains last1 g2 db2 g3 es broke where
    "WriteImpl_wal cfg env wo nls nlds last_seq (group_seq_inc cfg g) (map checked g)
       (if disableWAL wo then db\<lparr>has_unpersisted_data := True\<rparr> else db) = (io_s, last1, g2, db2)"
    "(if ok io_s
      then WriteImpl_pre_release (seq_per_batch cfg) dm (group_callback_cnt g) g2 0 (last1 + 1) 0
      else (g2, [], None)) = (g3, es, broke)"
    "(if ok st then WriteImpl_memtable env (group_parallel cfg g) (last1 + 1) g3 (emit es db2)
      else (g3, False, emit es db2)) = (g4, ipg, db4)"
    "st = (case broke of None \<Rightarrow> io_s | Some ws_status \<Rightarrow> ws_status)"
    "last2 = last1 + group_seq_inc cfg g"
proof -
  obtain io_s' last1 g2 db2 where
    w: "WriteImpl_wal cfg env wo nls nlds last_seq (group_seq_inc cfg g) (map checked g)
       (if disableWAL wo then db\<lparr>has_unpersisted_data := True\<rparr> else db) = (io_s', last1, g2, db2)"
    by (metis prod_cases4)
  obtain g3 es broke where
    p: "(if ok io_s'
      then WriteImpl_pre_release (seq_per_batch cfg) dm (group_callback_cnt g) g2 0 (last1 + 1) 0
      else (g2, [], None)) = (g3, es, broke)"
    by (metis prod_cases3)
  let ?st = "case broke of None \<Rightarrow> io_s' | Some ws_status \<Rightarrow> ws_status"
  obtain g4' ipg' db4' where
    m: "(if ok ?st then WriteImpl_memtable env (group_parallel cfg g) (last1 + 1) g3 (emit es db2)
      else (g3, False, emit es db2)) = (g4', ipg', db4')"
    by (metis prod_cases3)
  from c have "(st, io_s, last2, g4, ipg, db4) = (?st, io_s', last1 + group_seq_inc cfg g, g4', ipg', db4')"
    unfolding WriteImpl_commit_unfold [OF fr] w prod.case p m by simp
  then have e: "st = ?st" "io_s' = io_s" "last2 = last1 + group_seq_inc cfg g" "g4' = g4"
    "ipg' = ipg" "db4' = db4"
    by simp_all
  show thesis
  proof (rule that)
    show "WriteImpl_wal cfg env wo nls nlds last_seq (group_seq_inc cfg g) (map checked g)
       (if disableWAL wo then db\<lparr>has_unpersisted_data := True\<rparr> else db) = (io_s, last1, g2, db2)"
      using w e(2) by simp
    show "(if ok io_s
      then WriteImpl_pre_release (seq_per_batch cfg) dm (group_callback_cnt g) g2 0 (last1 + 1) 0
      else (g2, [], None)) = (g3, es, broke)"
      using p e(2) by simp
    show "(if ok st then WriteImpl_memtable env (group_parallel cfg g) (last1 + 1) g3 (emit es db2)
      else (g3, False, emit es db2)) = (g4, ipg, db4)"
      using m e by simp
    show "st = (case broke of None \<Rightarrow> io_s | Some ws_status \<Rightarrow> ws_status)"
      using e(1,2) by (cases broke) simp_all
    show "last2 = last1 + group_seq_inc cfg g"
      using e by simp
  qed
qed

lemma WriteImpl_commit_props:
  assumes fr: "list_all fresh g" and ne: "g \<noteq> []"
    and c: "WriteImpl_commit cfg env wo dm nls nlds last_seq g db = (st, io_s, last2, g4, ipg, db4)"
  shows "length g4 = length g"
    and "ok st \<longrightarrow> map sequence g4 =
           map sequence (assigned (seq_per_batch cfg) (group_base cfg last_seq db + 1) (map checked g))"
    and "last2 = group_base cfg last_seq db + group_seq_inc cfg g"
    and "last_allocated_sequence db4 =
           (if two_write_queues cfg then last_allocated_sequence db + group_seq_inc cfg g
            else last_allocated_sequence db)"
    and "last_sequence db4 = last_sequence db"
    and "\<exists>wal prc mem. events db4 = events db @ wal @ prc @ mem \<and>
           list_all is_wal_event wal \<and> list_all is_pre_release prc \<and>
           list_all is_memtable_event mem \<and>
           pre_release_calls prc = (if ok io_s then expected_calls g4 0 else []) \<and>
           (disableWAL wo \<longrightarrow> wal = [])"
    and "\<not> ok io_s \<longrightarrow> st = io_s \<and> \<not> ipg"
    and "CallbackFailed (hd g4) = CallbackFailed (checked (hd g))"
    and "\<not> ok st \<longrightarrow> status (hd g4) = status (hd g) \<and> \<not> ipg"
proof -
  from commit_pieces [OF fr ne c] obtain last1 g2 db2 g3 es broke where
    w: "WriteImpl_wal cfg env wo nls nlds last_seq (group_seq_inc cfg g) (map checked g)
       (if disableWAL wo then db\<lparr>has_unpersisted_data := True\<rparr> else db) = (io_s, last1, g2, db2)"
    and p: "(if ok io_s
      then WriteImpl_pre_release (seq_per_batch cfg) dm (group_callback_cnt g) g2 0 (last1 + 1) 0
      else (g2, [], None)) = (g3, es, broke)"
    and m: "(if ok st then WriteImpl_memtable env (group_parallel cfg g) (last1 + 1) g3 (emit es db2)
      else (g3, False, emit es db2)) = (g4, ipg, db4)"
    and st: "st = (case broke of None \<Rightarrow> io_s | Some ws_status \<Rightarrow> ws_status)"
    and l2: "last2 = last1 + group_seq_inc cfg g"
    by blast
  let ?db0 = "if disableWAL wo then db\<lparr>has_unpersisted_data := True\<rparr> else db"
  note wp = WriteImpl_wal_props [OF w]
  have s12: "list_all2 stamped (map checked g) g2" by (rule wp(1))
  then have len2: "length g2 = length g" by (auto dest: list_all2_lengthD)
  from wp(5) have last1: "last1 = group_base cfg last_seq db"
    by (simp add: group_base_def)
  from wp(2) obtain wal where wal: "events db2 = events db @ wal" "list_all is_wal_event wal"
    by auto
  from wp(6) wal(1) have wald: "disableWAL wo \<longrightarrow> wal = []" by simp
  have pp: "list_all2 seq_only g2 g3 \<and> list_all is_pre_release es \<and>
      pre_release_calls es = (if ok io_s then expected_calls g3 0 else []) \<and>
      (case broke of None \<Rightarrow> True | Some s \<Rightarrow> \<not> ok s) \<and> (\<not> ok io_s \<longrightarrow> broke = None)"
  proof (cases "ok io_s")
    case True
    with p have "WriteImpl_pre_release (seq_per_batch cfg) dm (group_callback_cnt g) g2 0
        (last1 + 1) 0 = (g3, es, broke)" by simp
    from WriteImpl_pre_release_props [OF this] True show ?thesis by simp
  next
    case False
    with p show ?thesis by (auto simp: list_all2_refl)
  qed
  then have s23: "list_all2 seq_only g2 g3" by blast
  then have len3: "length g3 = length g" using len2 by (auto dest: list_all2_lengthD)
  with ne have ne3: "g3 \<noteq> []" by auto
  have mm: "length g4 = length g3 \<and> map sequence g4 = map sequence g3 \<and>
      expected_calls g4 0 = expected_calls g3 0 \<and>
      CallbackFailed (hd g4) = CallbackFailed (hd g3) \<and>
      (\<exists>mem. db4 = emit mem (emit es db2) \<and> list_all is_memtable_event mem) \<and>
      (\<not> ok st \<longrightarrow> g4 = g3 \<and> \<not> ipg)"
  proof (cases "ok st")
    case True
    with m have mt: "WriteImpl_memtable env (group_parallel cfg g) (last1 + 1) g3 (emit es db2) =
        (g4, ipg, db4)" by simp
    from WriteImpl_memtable_props [OF mt ne3] True show ?thesis by auto
  next
    case False
    with m have e: "g4 = g3" "\<not> ipg" "db4 = emit [] (emit es db2)" by simp_all
    have "list_all is_memtable_event []" by simp
    with e(3) have "\<exists>mem. db4 = emit mem (emit es db2) \<and> list_all is_memtable_event mem"
      by blast
    with e(1,2) False show ?thesis by simp
  qed
  from mm len3 show "length g4 = length g" by simp
  show "ok st \<longrightarrow> map sequence g4 =
      map sequence (assigned (seq_per_batch cfg) (group_base cfg last_seq db + 1) (map checked g))"
  proof
    assume okst: "ok st"
    with st pp have b: "broke = None" and okio: "ok io_s"
      by (auto split: option.splits)
    with p have "WriteImpl_pre_release (seq_per_batch cfg) dm (group_callback_cnt g) g2 0
        (last1 + 1) 0 = (g3, es, None)" by simp
    from WriteImpl_pre_release_no_break [OF this]
    have "g3 = assigned (seq_per_batch cfg) (last1 + 1) g2" .
    with mm assigned_stamped [OF s12] last1 show "map sequence g4 =
      map sequence (assigned (seq_per_batch cfg) (group_base cfg last_seq db + 1) (map checked g))"
      by simp
  qed
  from l2 last1 show "last2 = group_base cfg last_seq db + group_seq_inc cfg g" by simp
  have db0: "last_sequence ?db0 = last_sequence db"
    "last_allocated_sequence ?db0 = last_allocated_sequence db"
    by simp_all
  from wp(4) mm db0 show "last_allocated_sequence db4 =
           (if two_write_queues cfg then last_allocated_sequence db + group_seq_inc cfg g
            else last_allocated_sequence db)"
    by auto
  from wp(3) mm db0 show "last_sequence db4 = last_sequence db" by auto
  from mm obtain mem where mem: "db4 = emit mem (emit es db2)" "list_all is_memtable_event mem"
    by blast
  from mem(1) wal(1) have ev: "events db4 = events db @ wal @ es @ mem" by simp
  from pp mm have calls: "pre_release_calls es = (if ok io_s then expected_calls g4 0 else [])"
    by simp
  from pp have prc: "list_all is_pre_release es" by blast
  from ev wal(2) prc mem(2) calls wald
  have "events db4 = events db @ wal @ es @ mem \<and>
           list_all is_wal_event wal \<and> list_all is_pre_release es \<and>
           list_all is_memtable_event mem \<and>
           pre_release_calls es = (if ok io_s then expected_calls g4 0 else []) \<and>
           (disableWAL wo \<longrightarrow> wal = [])"
    by blast
  then show "\<exists>wal prc mem. events db4 = events db @ wal @ prc @ mem \<and>
           list_all is_wal_event wal \<and> list_all is_pre_release prc \<and>
           list_all is_memtable_event mem \<and>
           pre_release_calls prc = (if ok io_s then expected_calls g4 0 else []) \<and>
           (disableWAL wo \<longrightarrow> wal = [])"
    by blast
  from st pp mm show "\<not> ok io_s \<longrightarrow> st = io_s \<and> \<not> ipg" by auto
  have h2: "CallbackFailed (hd g2) = CallbackFailed (checked (hd g))"
    using s12 ne by (cases g; cases g2) (auto simp: stamped_fields)
  have h3: "CallbackFailed (hd g3) = CallbackFailed (hd g2)"
    using s23 ne3 by (cases g2; cases g3) (auto simp: seq_only_fields)
  from mm h2 h3 show "CallbackFailed (hd g4) = CallbackFailed (checked (hd g))" by simp
  have t2: "status (hd g2) = status (hd g)"
    using s12 ne by (cases g; cases g2) (auto simp: stamped_fields)
  have t3: "status (hd g3) = status (hd g2)"
    using s23 ne3 by (cases g2; cases g3) (auto simp: seq_only_fields)
  from mm t2 t3 show "\<not> ok st \<longrightarrow> status (hd g4) = status (hd g) \<and> \<not> ipg" by auto
qed

lemma IOStatusCheck_emit: "IOStatusCheck cfg io_s db = emit (io_check_events cfg io_s) db"
  by (simp add: IOStatusCheck_def io_check_events_def SetBGError_def)

lemma WriteStatusCheck_emit: "WriteStatusCheck cfg st db = emit (status_check_events cfg st) db"
  by (simp add: WriteStatusCheck_def status_check_events_def SetBGError_def)

lemma WriteStatusCheckOnLocked_emit:
  "WriteStatusCheckOnLocked cfg st db = emit (status_check_events cfg st) db"
  by (simp add: WriteStatusCheckOnLocked_def status_check_events_def SetBGError_def)

lemma MemTableInsertStatusCheck_emit:
  "MemTableInsertStatusCheck st db = emit (if \<not> ok st then [EvSetBGError st kMemTable] else []) db"
  by (simp add: MemTableInsertStatusCheck_def SetBGError_def)

lemma SetLastSequence_fields [simp]:
  "events (SetLastSequence s db) = events db @ [EvSetLastSequence s]"
  "last_sequence (SetLastSequence s db) = s"
  "last_allocated_sequence (SetLastSequence s db) = last_allocated_sequence db"
  by (simp_all add: SetLastSequence_def emit_def)

lemma WriteImpl_finish_eq:
  assumes a: "WriteImpl_finish cfg env nls nlds (st, io_s, last_seq, g, ipg, db) = (ret, g', db')"
  shows "g' = g \<and>
   ret = (if ok (finish_status cfg env nls st) then FinalStatus (hd g)
          else finish_status cfg env nls st) \<and>
   events db' = events db @ finish_events cfg env nls st io_s last_seq (hd g) ipg \<and>
   last_allocated_sequence db' = last_allocated_sequence db \<and>
   last_sequence db' =
     (if (ipg \<longrightarrow> CompleteParallelMemTableWriter env) \<and> ok (finish_status cfg env nls st)
      then last_seq else last_sequence db)"
proof -
  define A where "A = (if \<not> CallbackFailed (hd g)
      then (if \<not> ok io_s then io_check_events cfg io_s else status_check_events cfg st)
      else [])"
  define B where "B = (if nls then
        (if ok st then [EvMarkLogsSynced] else [EvMarkLogsNotSynced]) @
        (if two_write_queues cfg
         then (if manual_wal_flush cfg then [EvFlushWAL] else [EvSyncWAL]) else [])
      else [])"
  define C where "C = (if ipg then [EvCompleteParallelMemTableWriter] else [])"
  define fs where "fs = finish_status cfg env nls st"
  define D where "D = (if ipg \<longrightarrow> CompleteParallelMemTableWriter env then
        (if ok fs then [EvSetLastSequence last_seq] else []) @
        (if \<not> ok (status (hd g)) then [EvSetBGError (status (hd g)) kMemTable] else []) @
        [EvExitAsBatchGroupLeader fs]
      else [])"
  define db1 where "db1 = (if \<not> CallbackFailed (hd g) then
                       (if \<not> ok io_s then IOStatusCheck cfg io_s db else WriteStatusCheck cfg st db)
                     else db)"
  define r2 where "r2 = (if nls then
                      (let r1 = (if ok st then (MarkLogsSynced_status env, emit [EvMarkLogsSynced] db1)
                                 else (st, emit [EvMarkLogsNotSynced] db1))
                       in if two_write_queues cfg then
                            (if manual_wal_flush cfg
                             then (FlushWAL_status env, emit [EvFlushWAL] (snd r1))
                             else (SyncWAL_status env, emit [EvSyncWAL] (snd r1)))
                          else r1)
                    else (st, db1))"
  define db3 where "db3 = (if ipg then emit [EvCompleteParallelMemTableWriter] (snd r2)
                     else snd r2)"
  define db4 where "db4 = (if (if ipg then CompleteParallelMemTableWriter env else True) then
                       emit [EvExitAsBatchGroupLeader (fst r2)]
                         (MemTableInsertStatusCheck (status (hd g))
                            (if ok (fst r2) then SetLastSequence last_seq db3 else db3))
                     else db3)"
  have e1: "db1 = emit A db"
    by (simp add: db1_def A_def IOStatusCheck_emit WriteStatusCheck_emit)
  have e2: "r2 = (fs, emit B db1)"
    by (simp add: r2_def B_def fs_def finish_status_def Let_def emit_emit)
  have e3: "db3 = emit C (emit B db1)"
    by (simp add: db3_def C_def e2)
  have ev4: "events db4 = events db3 @ D"
    by (simp add: db4_def D_def e2 MemTableInsertStatusCheck_emit)
  have la4: "last_allocated_sequence db4 = last_allocated_sequence db3"
    by (simp add: db4_def e2 MemTableInsertStatusCheck_emit)
  have ls4: "last_sequence db4 =
      (if (ipg \<longrightarrow> CompleteParallelMemTableWriter env) \<and> ok fs then last_seq else last_sequence db3)"
    by (simp add: db4_def e2 MemTableInsertStatusCheck_emit)
  from a have res: "ret = (if ok (fst r2) then FinalStatus (hd g) else fst r2)" "g' = g" "db' = db4"
    unfolding WriteImpl_finish_def prod.case Let_def db4_def db3_def r2_def db1_def
    by simp_all
  have fe: "finish_events cfg env nls st io_s last_seq (hd g) ipg = A @ B @ C @ D"
    by (simp add: finish_events_def A_def B_def C_def D_def fs_def)
  show ?thesis
    using res ev4 la4 ls4
    by (simp add: fe e1 e2 e3 fs_def)
qed

lemma finish_events_kinds:
  "\<not> list_ex is_wal_event (finish_events cfg env nls st io_s last_seq w ipg)"
  "\<not> list_ex is_pre_release (finish_events cfg env nls st io_s last_seq w ipg)"
  "\<not> list_ex is_memtable_event (finish_events cfg env nls st io_s last_seq w ipg)"
  by (simp_all add: finish_events_def io_check_events_def status_check_events_def)

lemma finish_events_SetBGError:
  "filter is_SetBGError (finish_events cfg env nls st io_s last_seq w ipg) =
     (if \<not> CallbackFailed w
      then (if \<not> ok io_s then io_check_events cfg io_s else status_check_events cfg st)
      else []) @
     (if (ipg \<longrightarrow> CompleteParallelMemTableWriter env) \<and> \<not> ok (status w)
      then [EvSetBGError (status w) kMemTable] else [])"
  by (simp add: finish_events_def io_check_events_def status_check_events_def)

lemma WriteImpl_group_eq:
  "ok pre_st \<Longrightarrow>
   WriteImpl_group cfg env wo dm nls nlds pre_st last_seq g db =
     WriteImpl_finish cfg env nls nlds (WriteImpl_commit cfg env wo dm nls nlds last_seq g db)"
  by (simp add: WriteImpl_group_def)

lemma six_tuple: "x = (fst x, fst (snd x), fst (snd (snd x)), fst (snd (snd (snd x))),
    fst (snd (snd (snd (snd x)))), snd (snd (snd (snd (snd x)))))"
  by simp

lemma three_tuple: "x = (fst x, fst (snd x), snd (snd x))"
  by simp

lemma WriteImpl_pre_release_eq:
  "WriteImpl_pre_release spb dm cnt g pos next_sequence idx = (g', es, broke) \<Longrightarrow>
   g' = assigned_until spb next_sequence g \<and> (broke = None \<longleftrightarrow> \<not> list_ex pre_release_fails g)"
proof (induction g arbitrary: pos next_sequence idx g' es broke)
  case Nil
  then show ?case by simp
next
  case (Cons w ws)
  have sw: "ShouldWriteToMemtable (w\<lparr>sequence := next_sequence\<rparr>) = ShouldWriteToMemtable w"
    by (simp add: ShouldWriteToMemtable_def CallbackFailed_def)
  show ?case
  proof (cases "CallbackFailed w")
    case True
    with Cons.prems obtain ws' where
      r: "WriteImpl_pre_release spb dm cnt ws (Suc pos) next_sequence idx = (ws', es, broke)"
      and g': "g' = w # ws'"
      by (auto split: prod.splits)
    from Cons.IH [OF r] True g' show ?thesis by (simp add: pre_release_fails_def)
  next
    case False
    let ?w = "w\<lparr>sequence := next_sequence\<rparr>"
    let ?n = "if spb then next_sequence + batch_cnt ?w
              else if ShouldWriteToMemtable ?w then next_sequence + Count (batch ?w)
              else next_sequence"
    have n: "?n = next_sequence + consumes spb w"
      using False by (simp add: consumes_def sw)
    show ?thesis
    proof (cases "pre_release_callback w")
      case None
      with False Cons.prems obtain ws' where
        r: "WriteImpl_pre_release spb dm cnt ws (Suc pos) ?n idx = (ws', es, broke)"
        and g': "g' = ?w # ws'"
        by (auto simp: Let_def split: prod.splits)
      from Cons.IH [OF r] False None g' show ?thesis
        unfolding n by (simp add: pre_release_fails_def)
    next
      case (Some s)
      show ?thesis
      proof (cases "ok s")
        case True
        with False Some Cons.prems obtain ws' es' where
          r: "WriteImpl_pre_release spb dm cnt ws (Suc pos) ?n (idx + 1) = (ws', es', broke)"
          and g': "g' = ?w # ws'"
          by (auto simp: Let_def split: prod.splits)
        from Cons.IH [OF r] False Some True g' show ?thesis
          unfolding n by (simp add: pre_release_fails_def)
      next
        case nok: False
        with False Some Cons.prems have
          g': "g' = ?w # ws" and b: "broke = Some s"
          by (auto simp: Let_def)
        with False Some nok show ?thesis
          by (simp add: pre_release_fails_def)
      qed
    qed
  qed
qed

lemma length_assigned_until [simp]: "length (assigned_until spb n g) = length g"
  by (induction g arbitrary: n) auto

lemma assigned_until_nth:
  "i < length g \<Longrightarrow>
   assigned_until spb n g ! i =
     (if \<not> CallbackFailed (g ! i) \<and> \<not> list_ex pre_release_fails (take i g)
      then (g ! i)\<lparr>sequence := n + sum_list (map (consumes spb) (take i g))\<rparr>
      else g ! i)"
proof (induction g arbitrary: i n)
  case Nil
  then show ?case by simp
next
  case (Cons w ws)
  show ?case
  proof (cases i)
    case 0
    then show ?thesis by simp
  next
    case (Suc j)
    with Cons.prems have j: "j < length ws" by simp
    show ?thesis
    proof (cases "CallbackFailed w")
      case True
      then have "consumes spb w = 0" "\<not> pre_release_fails w"
        by (simp_all add: consumes_def pre_release_fails_def)
      with Cons.IH [OF j] Suc True show ?thesis by simp
    next
      case False
      show ?thesis
      proof (cases "pre_release_fails w")
        case True
        with False Suc show ?thesis by simp
      next
        case nf: False
        with Cons.IH [OF j, of "n + consumes spb w"] Suc False show ?thesis
          by (simp add: ac_simps)
      qed
    qed
  qed
qed

lemma pre_release_fails_stamped: "stamped a b \<Longrightarrow> pre_release_fails b = pre_release_fails a"
  by (simp add: pre_release_fails_def stamped_fields)

lemma assigned_until_stamped:
  "list_all2 stamped a b \<Longrightarrow>
   map sequence (assigned_until spb n b) = map sequence (assigned_until spb n a) \<and>
   list_ex pre_release_fails b = list_ex pre_release_fails a"
proof (induction a b arbitrary: n rule: list_all2_induct)
  case Nil
  then show ?case by simp
next
  case (Cons x xs y ys)
  from Cons.hyps(2) have "map sequence ys = map sequence xs"
    by (induction xs ys rule: list_all2_induct) (simp_all add: stamped_fields)
  with Cons show ?case
    by (simp add: stamped_fields pre_release_fails_stamped)
qed

lemma WriteImpl_commit_sequences:
  assumes fr: "list_all fresh g" and ne: "g \<noteq> []"
    and c: "WriteImpl_commit cfg env wo dm nls nlds last_seq g db = (st, io_s, last2, g4, ipg, db4)"
    and io: "ok io_s"
  shows "map sequence g4 =
           map sequence (assigned_until (seq_per_batch cfg) (group_base cfg last_seq db + 1)
                           (map checked g))"
    and "ok st \<longleftrightarrow> \<not> list_ex pre_release_fails (map checked g)"
proof -
  from commit_pieces [OF fr ne c] obtain last1 g2 db2 g3 es broke where
    w: "WriteImpl_wal cfg env wo nls nlds last_seq (group_seq_inc cfg g) (map checked g)
       (if disableWAL wo then db\<lparr>has_unpersisted_data := True\<rparr> else db) = (io_s, last1, g2, db2)"
    and p: "(if ok io_s
      then WriteImpl_pre_release (seq_per_batch cfg) dm (group_callback_cnt g) g2 0 (last1 + 1) 0
      else (g2, [], None)) = (g3, es, broke)"
    and m: "(if ok st then WriteImpl_memtable env (group_parallel cfg g) (last1 + 1) g3 (emit es db2)
      else (g3, False, emit es db2)) = (g4, ipg, db4)"
    and st: "st = (case broke of None \<Rightarrow> io_s | Some ws_status \<Rightarrow> ws_status)"
    and l2: "last2 = last1 + group_seq_inc cfg g"
    by blast
  note wp = WriteImpl_wal_props [OF w]
  have s12: "list_all2 stamped (map checked g) g2" by (rule wp(1))
  from wp(5) have last1: "last1 = group_base cfg last_seq db"
    by (simp add: group_base_def)
  from p io have pr: "WriteImpl_pre_release (seq_per_batch cfg) dm (group_callback_cnt g) g2 0
        (last1 + 1) 0 = (g3, es, broke)" by simp
  note e = WriteImpl_pre_release_eq [OF pr]
  note pp = WriteImpl_pre_release_props [OF pr]
  from pp have s23: "list_all2 seq_only g2 g3" by blast
  have len3: "length g3 = length g"
    using list_all2_lengthD [OF s12] list_all2_lengthD [OF s23] by simp
  with ne have ne3: "g3 \<noteq> []" by auto
  have m4: "map sequence g4 = map sequence g3"
  proof (cases "ok st")
    case True
    with m have mt: "WriteImpl_memtable env (group_parallel cfg g) (last1 + 1) g3 (emit es db2) =
        (g4, ipg, db4)" by simp
    from WriteImpl_memtable_props(2) [OF mt ne3] show ?thesis .
  next
    case False
    with m show ?thesis by simp
  qed
  note as = assigned_until_stamped [OF s12, of "seq_per_batch cfg" "last1 + 1"]
  from e have g3: "g3 = assigned_until (seq_per_batch cfg) (last1 + 1) g2" by (rule conjunct1)
  from e have b: "(broke = None) = (\<not> list_ex pre_release_fails g2)" by (rule conjunct2)
  from as have a1: "map sequence (assigned_until (seq_per_batch cfg) (last1 + 1) g2) =
      map sequence (assigned_until (seq_per_batch cfg) (last1 + 1) (map checked g))"
    by (rule conjunct1)
  from as have a2: "list_ex pre_release_fails g2 = list_ex pre_release_fails (map checked g)"
    by (rule conjunct2)
  have "map sequence g4 = map sequence (assigned_until (seq_per_batch cfg) (last1 + 1) g2)"
    unfolding m4 g3 [symmetric] ..
  also note a1
  finally show "map sequence g4 =
           map sequence (assigned_until (seq_per_batch cfg) (group_base cfg last_seq db + 1)
                           (map checked g))"
    unfolding last1 .
  from pp have nok: "case broke of None \<Rightarrow> True | Some s \<Rightarrow> \<not> ok s" by blast
  have "ok st \<longleftrightarrow> broke = None"
  proof (cases broke)
    case None
    with st io show ?thesis by simp
  next
    case (Some s)
    with st nok show ?thesis by simp
  qed
  then show "ok st \<longleftrightarrow> \<not> list_ex pre_release_fails (map checked g)"
    unfolding b a2 .
qed

section \<open>Properties of the write path: the WAL-only group\<close>

lemma WALOnly_check_group_fst: "fst (WALOnly_check_group g cnt) = map checked g"
  by (induction g arbitrary: cnt) (simp_all add: case_prod_beta checked_def)

lemma WALOnly_total_batch_cnt_eq:
  "WALOnly_total_batch_cnt g t =
     t + sum_list (map (\<lambda>w. if CallbackFailed w then 0 else batch_cnt w) g)"
  by (induction g arbitrary: t) (auto simp: ac_simps)

lemma WALOnly_assign_seq_only: "list_all2 seq_only g (fst (WALOnly_assign ao g cur n))"
  by (induction g arbitrary: cur n) (simp_all add: case_prod_beta)

lemma WALOnly_pre_release_props:
  "WALOnly_pre_release dm cnt g pos idx = (es, broke) \<Longrightarrow>
   list_all is_pre_release es \<and> pre_release_calls es = expected_calls g pos \<and>
   (case broke of None \<Rightarrow> True | Some s \<Rightarrow> \<not> ok s)"
proof (induction g arbitrary: pos idx es broke)
  case Nil
  then show ?case by simp
next
  case (Cons w ws)
  show ?case
  proof (cases "\<not> CallbackFailed w \<and> pre_release_callback w \<noteq> None")
    case False
    with Cons.prems have "WALOnly_pre_release dm cnt ws (Suc pos) idx = (es, broke)"
      by auto
    from Cons.IH [OF this] False show ?thesis by auto
  next
    case True
    then obtain s where s: "pre_release_callback w = Some s" by auto
    show ?thesis
    proof (cases "ok s")
      case nok: False
      with True s Cons.prems show ?thesis by (auto simp: Let_def)
    next
      case ok: True
      with True s Cons.prems obtain es' where
        r: "WALOnly_pre_release dm cnt ws (Suc pos) (idx + 1) = (es', broke)"
        and es: "es = EvPreReleaseCallback pos (sequence w) dm (log_used w) idx cnt # es'"
        by (auto simp: Let_def split: prod.splits)
      from Cons.IH [OF r] True s ok es show ?thesis by simp
    qed
  qed
qed

lemma ConcurrentWriteToWAL_status:
  "ConcurrentWriteToWAL env g seq_inc db = (io_s, last0, g', db') \<Longrightarrow> io_s = AddRecord_status env"
  by (auto simp: ConcurrentWriteToWAL_def Let_def WriteToWAL_batch_eq
      FetchAddLastAllocatedSequence_def split: prod.splits)

lemma pre_release_calls_append [simp]:
  "pre_release_calls (xs @ ys) = pre_release_calls xs @ pre_release_calls ys"
  by (induction xs rule: pre_release_calls.induct) simp_all

lemma pre_release_calls_none: "\<not> list_ex is_pre_release xs \<Longrightarrow> pre_release_calls xs = []"
  by (induction xs rule: pre_release_calls.induct) simp_all

lemma wal_not_pre_release: "list_all is_wal_event xs \<Longrightarrow> \<not> list_ex is_pre_release xs"
proof (induction xs)
  case Nil
  then show ?case by simp
next
  case (Cons x xs)
  then show ?case by (cases x) simp_all
qed

lemma wal_not_memtable: "list_all is_wal_event xs \<Longrightarrow> \<not> list_ex is_memtable_event xs"
proof (induction xs)
  case Nil
  then show ?case by simp
next
  case (Cons x xs)
  then show ?case by (cases x) simp_all
qed

lemma memtable_not_pre_release: "list_all is_memtable_event xs \<Longrightarrow> \<not> list_ex is_pre_release xs"
proof (induction xs)
  case Nil
  then show ?case by simp
next
  case (Cons x xs)
  then show ?case by (cases x) simp_all
qed

lemma memtable_not_AddRecord: "list_all is_memtable_event xs \<Longrightarrow> \<not> list_ex is_AddRecord xs"
proof (induction xs)
  case Nil
  then show ?case by simp
next
  case (Cons x xs)
  then show ?case by (cases x) simp_all
qed

lemma pre_release_not_others:
  "list_all is_pre_release xs \<Longrightarrow>
   \<not> list_ex is_AddRecord xs \<and> \<not> list_ex is_memtable_event xs \<and> \<not> list_ex is_SetBGError xs \<and>
   \<not> list_ex is_wal_event xs"
proof (induction xs)
  case Nil
  then show ?case by simp
next
  case (Cons x xs)
  then show ?case by (cases x) simp_all
qed

lemma wal_not_SetBGError: "list_all is_wal_event xs \<Longrightarrow> filter is_SetBGError xs = []"
proof (induction xs)
  case Nil
  then show ?case by simp
next
  case (Cons x xs)
  then show ?case by (cases x) simp_all
qed

lemma memtable_not_SetBGError: "list_all is_memtable_event xs \<Longrightarrow> filter is_SetBGError xs = []"
proof (induction xs)
  case Nil
  then show ?case by simp
next
  case (Cons x xs)
  then show ?case by (cases x) simp_all
qed

lemma pre_release_not_SetBGError: "list_all is_pre_release xs \<Longrightarrow> filter is_SetBGError xs = []"
proof (induction xs)
  case Nil
  then show ?case by simp
next
  case (Cons x xs)
  then show ?case by (cases x) simp_all
qed

lemma is_AddRecord_wal: "is_AddRecord e \<Longrightarrow> is_wal_event e"
  by (cases e) simp_all

lemma WriteImplWALOnly_group_props:
  assumes r: "WriteImplWALOnly_group cfg env wo ao pls dm g db0 = (ret, g', db')"
    and ne: "g \<noteq> []"
  shows "\<exists>wal prc st.
           events db' = events db0 @ [EvEnterAsBatchGroupLeader] @ wal @
             wal_only_mid cfg env wo (CallbackFailed (checked (hd g))) @ prc @
             (if pls then [EvSetLastSequence (last_allocated_sequence db0 + wal_only_seq_inc ao g)]
              else []) @ [EvExitAsBatchGroupLeader st] \<and>
           list_all is_wal_event wal \<and> (disableWAL wo \<longrightarrow> wal = []) \<and>
           list_all is_pre_release prc \<and>
           pre_release_calls prc =
             (if ok (wal_only_status cfg env wo) then expected_calls g' 0 else []) \<and>
           ret = (if ok st then FinalStatus (hd g') else st) \<and>
           (\<not> ok (wal_only_status cfg env wo) \<longrightarrow> st = wal_only_status cfg env wo)"
    and "last_allocated_sequence db' = last_allocated_sequence db0 + wal_only_seq_inc ao g"
    and "length g' = length g"
proof -
  let ?db = "emit [EvEnterAsBatchGroupLeader] db0"
  let ?inc = "wal_only_seq_inc ao g"
  let ?io = "wal_only_io_status env wo"
  let ?st2 = "wal_only_status cfg env wo"
  obtain cnt where cg: "WALOnly_check_group g 0 = (map checked g, cnt)"
    using WALOnly_check_group_fst [of g 0] by (cases "WALOnly_check_group g 0") simp
  define r1 where "r1 = (if \<not> disableWAL wo then ConcurrentWriteToWAL env (map checked g) ?inc ?db
                    else (case FetchAddLastAllocatedSequence ?inc ?db of
                            (last0, db') \<Rightarrow> (OK, last0, map checked g, db')))"
  obtain io_s last_seq g2 db2 where r1: "r1 = (io_s, last_seq, g2, db2)"
    by (metis prod_cases4)
  have w: "io_s = ?io \<and> last_seq = last_allocated_sequence db0 \<and>
      list_all2 stamped (map checked g) g2 \<and>
      (\<exists>wal. events db2 = events ?db @ wal \<and> list_all is_wal_event wal \<and>
         (disableWAL wo \<longrightarrow> wal = [])) \<and>
      last_allocated_sequence db2 = last_allocated_sequence db0 + ?inc"
  proof (cases "disableWAL wo")
    case True
    with r1 have "io_s = OK" "last_seq = last_allocated_sequence db0" "g2 = map checked g"
      "db2 = ?db\<lparr>last_allocated_sequence := last_allocated_sequence db0 + ?inc\<rparr>"
      by (auto simp: r1_def FetchAddLastAllocatedSequence_def)
    moreover have "list_all is_wal_event []" by simp
    ultimately show ?thesis using True
      by (simp add: wal_only_io_status_def)
  next
    case False
    with r1 have c: "ConcurrentWriteToWAL env (map checked g) ?inc ?db = (io_s, last_seq, g2, db2)"
      by (simp add: r1_def)
    from ConcurrentWriteToWAL_props [OF c] ConcurrentWriteToWAL_status [OF c] False
    show ?thesis
      by (auto simp: wal_only_io_status_def)
  qed
  then obtain wal where wal: "events db2 = events ?db @ wal" "list_all is_wal_event wal"
    "disableWAL wo \<longrightarrow> wal = []" by blast
  from w have io: "io_s = ?io" and ls: "last_seq = last_allocated_sequence db0"
    and s12: "list_all2 stamped (map checked g) g2"
    and la2: "last_allocated_sequence db2 = last_allocated_sequence db0 + ?inc"
    by blast+
  obtain g3 mwc where as: "WALOnly_assign ao g2 (last_seq + 1) 0 = (g3, mwc)"
    by (cases "WALOnly_assign ao g2 (last_seq + 1) 0")
  from WALOnly_assign_seq_only [of g2 ao "last_seq + 1" 0] as have s23: "list_all2 seq_only g2 g3"
    by simp
  from list_all2_lengthD [OF s12] list_all2_lengthD [OF s23] have len: "length g3 = length g"
    by simp
  with ne have ne3: "g3 \<noteq> []" by auto
  have cf2: "CallbackFailed (hd g2) = CallbackFailed (checked (hd g))"
    using s12 ne by (cases g; cases g2) (auto simp: stamped_fields)
  have cf3: "CallbackFailed (hd g3) = CallbackFailed (hd g2)"
    using s23 ne3 by (cases g2; cases g3) (auto simp: seq_only_fields)
  define r2 where "r2 = (if ok io_s \<and> sync wo then
                                  (if manual_wal_flush cfg
                                   then (FlushWAL_status env, emit [EvFlushWAL] db2)
                                   else (SyncWAL_status env, emit [EvSyncWAL] db2))
                                else (io_s, db2))"
  define db3 where "db3 = (if \<not> CallbackFailed (hd g3) then
                                   (if \<not> ok io_s then IOStatusCheck cfg io_s (snd r2)
                                    else WriteStatusCheck cfg (fst r2) (snd r2))
                                 else snd r2)"
  define r3 where "r3 = (if ok (fst r2) then WALOnly_pre_release dm cnt g3 0 0 else ([], None))"
  define st where "st = (case snd r3 of None \<Rightarrow> fst r2 | Some ws_status \<Rightarrow> ws_status)"
  define db5 where "db5 = (if pls then SetLastSequence (last_seq + ?inc) (emit (fst r3) db3)
                                 else emit (fst r3) db3)"
  define db6 where "db6 = (if unordered_write cfg \<and> ok st
                                 then db5\<lparr>pending_memtable_writes :=
                                            pending_memtable_writes db5 + mwc\<rparr>
                                 else db5)"
  have f2: "fst r2 = ?st2"
    by (simp add: r2_def io wal_only_status_def)
  have e3: "events db3 = events db2 @ wal_only_mid cfg env wo (CallbackFailed (checked (hd g)))"
    by (simp add: db3_def r2_def io wal_only_mid_def wal_only_status_def cf3 cf2
        IOStatusCheck_emit WriteStatusCheck_emit)
  have a3: "last_allocated_sequence db3 = last_allocated_sequence db2"
    by (simp add: db3_def r2_def IOStatusCheck_emit WriteStatusCheck_emit)
  have p3: "list_all is_pre_release (fst r3) \<and>
      pre_release_calls (fst r3) = (if ok ?st2 then expected_calls g3 0 else []) \<and>
      (case snd r3 of None \<Rightarrow> True | Some s \<Rightarrow> \<not> ok s) \<and> (\<not> ok ?st2 \<longrightarrow> snd r3 = None)"
  proof (cases "ok ?st2")
    case True
    with f2 have "WALOnly_pre_release dm cnt g3 0 0 = (fst r3, snd r3)"
      by (simp add: r3_def)
    from WALOnly_pre_release_props [OF this] True show ?thesis by simp
  next
    case False
    with f2 show ?thesis by (simp add: r3_def)
  qed
  have e6: "events db6 = events db3 @ fst r3 @
      (if pls then [EvSetLastSequence (last_seq + ?inc)] else [])"
    by (simp add: db6_def db5_def)
  have a6: "last_allocated_sequence db6 = last_allocated_sequence db3"
    by (simp add: db6_def db5_def)
  from r have res: "ret = (if ok st then FinalStatus (hd g3) else st)" "g' = g3"
    "db' = emit [EvExitAsBatchGroupLeader st] db6"
    unfolding WriteImplWALOnly_group_def Let_def cg prod.case wal_only_seq_inc_def [symmetric]
      r1_def [symmetric] r1 as r2_def [symmetric] db3_def [symmetric] r3_def [symmetric]
      st_def [symmetric] db5_def [symmetric] db6_def [symmetric]
    by simp_all
  have stn: "\<not> ok ?st2 \<longrightarrow> st = ?st2"
    using p3 f2 by (simp add: st_def)
  have ev: "events db' = events db0 @ [EvEnterAsBatchGroupLeader] @ wal @
             wal_only_mid cfg env wo (CallbackFailed (checked (hd g))) @ fst r3 @
             (if pls then [EvSetLastSequence (last_allocated_sequence db0 + ?inc)] else []) @
             [EvExitAsBatchGroupLeader st]"
    by (simp add: res e6 e3 wal(1) ls)
  from ev wal(2,3) p3 res stn
  have "events db' = events db0 @ [EvEnterAsBatchGroupLeader] @ wal @
             wal_only_mid cfg env wo (CallbackFailed (checked (hd g))) @ fst r3 @
             (if pls then [EvSetLastSequence (last_allocated_sequence db0 + wal_only_seq_inc ao g)]
              else []) @ [EvExitAsBatchGroupLeader st] \<and>
           list_all is_wal_event wal \<and> (disableWAL wo \<longrightarrow> wal = []) \<and>
           list_all is_pre_release (fst r3) \<and>
           pre_release_calls (fst r3) =
             (if ok (wal_only_status cfg env wo) then expected_calls g' 0 else []) \<and>
           ret = (if ok st then FinalStatus (hd g') else st) \<and>
           (\<not> ok (wal_only_status cfg env wo) \<longrightarrow> st = wal_only_status cfg env wo)"
    by simp
  then show "\<exists>wal prc st.
           events db' = events db0 @ [EvEnterAsBatchGroupLeader] @ wal @
             wal_only_mid cfg env wo (CallbackFailed (checked (hd g))) @ prc @
             (if pls then [EvSetLastSequence (last_allocated_sequence db0 + wal_only_seq_inc ao g)]
              else []) @ [EvExitAsBatchGroupLeader st] \<and>
           list_all is_wal_event wal \<and> (disableWAL wo \<longrightarrow> wal = []) \<and>
           list_all is_pre_release prc \<and>
           pre_release_calls prc =
             (if ok (wal_only_status cfg env wo) then expected_calls g' 0 else []) \<and>
           ret = (if ok st then FinalStatus (hd g') else st) \<and>
           (\<not> ok (wal_only_status cfg env wo) \<longrightarrow> st = wal_only_status cfg env wo)"
    by blast
  show "last_allocated_sequence db' = last_allocated_sequence db0 + wal_only_seq_inc ao g"
    by (simp add: res a6 a3 la2)
  show "length g' = length g"
    by (simp add: res len)
qed

lemma new_events_append: "events db' = events db @ es \<Longrightarrow> new_events db db' = es"
  by (simp add: new_events_def)

lemma expected_calls_at:
  "c \<in> set (expected_calls g 0) \<Longrightarrow> fst c < length g \<and> snd c = sequence (g ! fst c)"
  using expected_calls_mem [of c g 0] by simp

lemma wal_only_mid_kinds:
  "\<not> list_ex is_pre_release (wal_only_mid cfg env wo f)"
  "\<not> list_ex is_memtable_event (wal_only_mid cfg env wo f)"
  "\<not> list_ex is_AddRecord (wal_only_mid cfg env wo f)"
  by (simp_all add: wal_only_mid_def io_check_events_def status_check_events_def)

lemma list_ex_AddRecord_wal: "list_ex is_AddRecord xs \<Longrightarrow> list_ex is_wal_event xs"
  by (induction xs) (auto intro: is_AddRecord_wal)

lemma WriteImpl_group_events:
  assumes fr: "list_all fresh grp" and ne: "grp \<noteq> []" and pre: "ok pre_st"
    and r: "WriteImpl_group cfg env wo dm nls nlds pre_st last_seq grp db = (ret, g', db')"
  obtains st io_s last2 ipg db4 wal prc mem where
    "WriteImpl_commit cfg env wo dm nls nlds last_seq grp db = (st, io_s, last2, g', ipg, db4)"
    "new_events db db' = wal @ prc @ mem @ finish_events cfg env nls st io_s last2 (hd g') ipg"
    "list_all is_wal_event wal" "list_all is_pre_release prc" "list_all is_memtable_event mem"
    "pre_release_calls prc = (if ok io_s then expected_calls g' 0 else [])"
    "disableWAL wo \<longrightarrow> wal = []"
    "ret = (if ok (finish_status cfg env nls st) then FinalStatus (hd g')
            else finish_status cfg env nls st)"
    "last_allocated_sequence db' = last_allocated_sequence db4"
proof -
  obtain st io_s last2 g4 ipg db4 where
    c: "WriteImpl_commit cfg env wo dm nls nlds last_seq grp db = (st, io_s, last2, g4, ipg, db4)"
    by (metis prod_cases6)
  from r pre c have f: "WriteImpl_finish cfg env nls nlds (st, io_s, last2, g4, ipg, db4) = (ret, g', db')"
    by (simp add: WriteImpl_group_eq)
  note fe = WriteImpl_finish_eq [OF f]
  from fe have g': "g' = g4" by simp
  from WriteImpl_commit_props(6) [OF fr ne c] obtain wal prc mem where
    ev: "events db4 = events db @ wal @ prc @ mem"
    and k: "list_all is_wal_event wal" "list_all is_pre_release prc" "list_all is_memtable_event mem"
      "pre_release_calls prc = (if ok io_s then expected_calls g4 0 else [])"
      "disableWAL wo \<longrightarrow> wal = []"
    by blast
  from fe ev have "events db' = events db @ (wal @ prc @ mem @
      finish_events cfg env nls st io_s last2 (hd g4) ipg)" by simp
  then have ne': "new_events db db' = wal @ prc @ mem @
      finish_events cfg env nls st io_s last2 (hd g4) ipg"
    by (rule new_events_append)
  show thesis
  proof (rule that)
    show "WriteImpl_commit cfg env wo dm nls nlds last_seq grp db = (st, io_s, last2, g', ipg, db4)"
      using c g' by simp
    show "new_events db db' = wal @ prc @ mem @ finish_events cfg env nls st io_s last2 (hd g') ipg"
      using ne' g' by simp
    show "list_all is_wal_event wal" "list_all is_pre_release prc" "list_all is_memtable_event mem"
      by (rule k)+
    show "pre_release_calls prc = (if ok io_s then expected_calls g' 0 else [])"
      using k(4) g' by simp
    show "disableWAL wo \<longrightarrow> wal = []" by (rule k(5))
    show "ret = (if ok (finish_status cfg env nls st) then FinalStatus (hd g')
            else finish_status cfg env nls st)"
      using fe g' by simp
    show "last_allocated_sequence db' = last_allocated_sequence db4"
      using fe by simp
  qed
qed

lemma calls_order:
  assumes "calls = expected_calls g 0 \<or> calls = []"
  shows "sorted_wrt (<) (map fst calls) \<and>
         (\<forall>c \<in> set calls. fst c < length g \<and> snd c = sequence (g ! fst c))"
  using assms expected_calls_sorted [of g 0] expected_calls_at [of _ g] by auto

lemma WriteImpl_group_order:
  assumes fr: "list_all fresh grp" and ne: "grp \<noteq> []" and pre: "ok pre_st"
    and r: "WriteImpl_group cfg env wo dm nls nlds pre_st last_seq grp db = (ret, g', db')"
  shows "\<exists>wal prc rest. new_events db db' = wal @ prc @ rest \<and>
         \<not> list_ex is_pre_release wal \<and> \<not> list_ex is_memtable_event wal \<and>
         list_all is_pre_release prc \<and>
         \<not> list_ex is_pre_release rest \<and> \<not> list_ex is_AddRecord rest \<and>
         pre_release_calls (new_events db db') = pre_release_calls prc \<and>
         pre_release_calls prc =
           (if ok (fst (snd (WriteImpl_commit cfg env wo dm nls nlds last_seq grp db)))
            then expected_calls g' 0 else [])"
proof (rule WriteImpl_group_events [OF fr ne pre r])
  fix st io_s last2 ipg db4 wal prc mem
  assume c: "WriteImpl_commit cfg env wo dm nls nlds last_seq grp db = (st, io_s, last2, g', ipg, db4)"
    and ev: "new_events db db' = wal @ prc @ mem @ finish_events cfg env nls st io_s last2 (hd g') ipg"
    and k1: "list_all is_wal_event wal" and k2: "list_all is_pre_release prc"
    and k3: "list_all is_memtable_event mem"
    and calls: "pre_release_calls prc = (if ok io_s then expected_calls g' 0 else [])"
  define fin where "fin = finish_events cfg env nls st io_s last2 (hd g') ipg"
  define rest where "rest = mem @ fin"
  have w1: "\<not> list_ex is_pre_release wal"
    using k1 by (rule wal_not_pre_release)
  have w2: "\<not> list_ex is_memtable_event wal"
    using k1 by (rule wal_not_memtable)
  have f1: "\<not> list_ex is_pre_release fin"
    unfolding fin_def by (rule finish_events_kinds)
  have f2: "\<not> list_ex is_wal_event fin"
    unfolding fin_def by (rule finish_events_kinds)
  have m1: "\<not> list_ex is_pre_release mem"
    using k3 by (rule memtable_not_pre_release)
  have m2: "\<not> list_ex is_AddRecord mem"
    using k3 by (rule memtable_not_AddRecord)
  have fa: "\<not> list_ex is_AddRecord fin"
    using f2 list_ex_AddRecord_wal [of fin] by blast
  have r1: "\<not> list_ex is_pre_release rest"
    unfolding rest_def using m1 f1 by simp
  have r2: "\<not> list_ex is_AddRecord rest"
    unfolding rest_def using m2 fa by simp
  have e: "new_events db db' = wal @ prc @ rest"
    unfolding rest_def fin_def by (rule ev)
  have pc: "pre_release_calls (new_events db db') = pre_release_calls prc"
    unfolding e pre_release_calls_append
    by (simp only: pre_release_calls_none [OF w1] pre_release_calls_none [OF r1]
        append_Nil append_Nil2)
  have io: "fst (snd (WriteImpl_commit cfg env wo dm nls nlds last_seq grp db)) = io_s"
    unfolding c by simp
  have calls': "pre_release_calls prc =
           (if ok (fst (snd (WriteImpl_commit cfg env wo dm nls nlds last_seq grp db)))
            then expected_calls g' 0 else [])"
    unfolding io by (rule calls)
  show ?thesis
    apply (rule exI [of _ wal], rule exI [of _ prc], rule exI [of _ rest])
    apply (intro conjI)
           apply (rule e)
          apply (rule w1)
         apply (rule w2)
        apply (rule k2)
       apply (rule r1)
      apply (rule r2)
     apply (rule pc)
    apply (rule calls')
    done
qed

lemma WriteImplWALOnly_group_order:
  assumes ne: "grp \<noteq> []"
    and r: "WriteImplWALOnly_group cfg env wo ao pls dm grp db = (ret, g', db')"
  shows "\<exists>wal prc rest. new_events db db' = wal @ prc @ rest \<and>
         \<not> list_ex is_pre_release wal \<and> \<not> list_ex is_memtable_event wal \<and>
         list_all is_pre_release prc \<and>
         \<not> list_ex is_pre_release rest \<and> \<not> list_ex is_AddRecord rest \<and>
         \<not> list_ex is_memtable_event rest \<and>
         pre_release_calls (new_events db db') = pre_release_calls prc \<and>
         pre_release_calls prc =
           (if ok (wal_only_status cfg env wo) then expected_calls g' 0 else [])"
proof -
  from WriteImplWALOnly_group_props(1) [OF r ne] obtain wal prc st where
    ev: "events db' = events db @ [EvEnterAsBatchGroupLeader] @ wal @
             wal_only_mid cfg env wo (CallbackFailed (checked (hd grp))) @ prc @
             (if pls then [EvSetLastSequence (last_allocated_sequence db + wal_only_seq_inc ao grp)]
              else []) @ [EvExitAsBatchGroupLeader st]"
    and k1: "list_all is_wal_event wal" and k2: "list_all is_pre_release prc"
    and calls: "pre_release_calls prc =
             (if ok (wal_only_status cfg env wo) then expected_calls g' 0 else [])"
    by blast
  define mid where "mid = wal_only_mid cfg env wo (CallbackFailed (checked (hd grp)))"
  define front where "front = [EvEnterAsBatchGroupLeader] @ wal @ mid"
  define rest where "rest =
     (if pls then [EvSetLastSequence (last_allocated_sequence db + wal_only_seq_inc ao grp)]
      else []) @ [EvExitAsBatchGroupLeader st]"
  have w1: "\<not> list_ex is_pre_release wal"
    using k1 by (rule wal_not_pre_release)
  have w2: "\<not> list_ex is_memtable_event wal"
    using k1 by (rule wal_not_memtable)
  have mk1: "\<not> list_ex is_pre_release mid"
    unfolding mid_def by (rule wal_only_mid_kinds)
  have mk2: "\<not> list_ex is_memtable_event mid"
    unfolding mid_def by (rule wal_only_mid_kinds)
  have p1: "\<not> list_ex is_pre_release front"
    unfolding front_def using w1 mk1 by simp
  have p2: "\<not> list_ex is_memtable_event front"
    unfolding front_def using w2 mk2 by simp
  have r1: "\<not> list_ex is_pre_release rest"
    unfolding rest_def by simp
  have r2: "\<not> list_ex is_AddRecord rest"
    unfolding rest_def by simp
  have r3: "\<not> list_ex is_memtable_event rest"
    unfolding rest_def by simp
  have "events db' = events db @ (front @ prc @ rest)"
    unfolding front_def rest_def mid_def using ev by simp
  then have e: "new_events db db' = front @ prc @ rest"
    by (rule new_events_append)
  have pc: "pre_release_calls (new_events db db') = pre_release_calls prc"
    unfolding e pre_release_calls_append
    by (simp only: pre_release_calls_none [OF p1] pre_release_calls_none [OF r1]
        append_Nil append_Nil2)
  show ?thesis
    apply (rule exI [of _ front], rule exI [of _ prc], rule exI [of _ rest])
    apply (intro conjI)
            apply (rule e)
           apply (rule p1)
          apply (rule p2)
         apply (rule k2)
        apply (rule r1)
       apply (rule r2)
      apply (rule r3)
     apply (rule pc)
    apply (rule calls)
    done
qed

lemma WriteImpl_group_disable_wal:
  assumes fr: "list_all fresh grp" and ne: "grp \<noteq> []" and pre: "ok pre_st"
    and dw: "disableWAL wo"
    and r: "WriteImpl_group cfg env wo dm nls nlds pre_st last_seq grp db = (ret, g', db')"
  shows "last_allocated_sequence db' =
           (if two_write_queues cfg then last_allocated_sequence db + group_seq_inc cfg grp
            else last_allocated_sequence db)"
    and "\<not> list_ex is_AddRecord (new_events db db')"
proof -
  have "last_allocated_sequence db' =
           (if two_write_queues cfg then last_allocated_sequence db + group_seq_inc cfg grp
            else last_allocated_sequence db) \<and>
        \<not> list_ex is_AddRecord (new_events db db')"
  proof (rule WriteImpl_group_events [OF fr ne pre r])
    fix st io_s last2 ipg db4 wal prc mem
    assume c: "WriteImpl_commit cfg env wo dm nls nlds last_seq grp db = (st, io_s, last2, g', ipg, db4)"
      and ev: "new_events db db' = wal @ prc @ mem @ finish_events cfg env nls st io_s last2 (hd g') ipg"
      and k2: "list_all is_pre_release prc"
      and k3: "list_all is_memtable_event mem"
      and w: "disableWAL wo \<longrightarrow> wal = []"
      and la: "last_allocated_sequence db' = last_allocated_sequence db4"
    define fin where "fin = finish_events cfg env nls st io_s last2 (hd g') ipg"
    from w dw have wal: "wal = []" by simp
    have f2: "\<not> list_ex is_wal_event fin"
      unfolding fin_def by (rule finish_events_kinds)
    have fa: "\<not> list_ex is_AddRecord fin"
      using f2 list_ex_AddRecord_wal [of fin] by blast
    have ma: "\<not> list_ex is_AddRecord mem"
      using k3 by (rule memtable_not_AddRecord)
    from pre_release_not_others [OF k2] have pa: "\<not> list_ex is_AddRecord prc" by blast
    have e: "new_events db db' = prc @ mem @ fin"
      unfolding ev wal fin_def by simp
    have na: "\<not> list_ex is_AddRecord (new_events db db')"
      unfolding e using pa ma fa by simp
    have "last_allocated_sequence db' =
           (if two_write_queues cfg then last_allocated_sequence db + group_seq_inc cfg grp
            else last_allocated_sequence db)"
      unfolding la by (rule WriteImpl_commit_props(4) [OF fr ne c])
    with na show ?thesis by blast
  qed
  then show "last_allocated_sequence db' =
           (if two_write_queues cfg then last_allocated_sequence db + group_seq_inc cfg grp
            else last_allocated_sequence db)"
    and "\<not> list_ex is_AddRecord (new_events db db')"
    by blast+
qed

lemma WriteImplWALOnly_group_disable_wal:
  assumes ne: "grp \<noteq> []" and dw: "disableWAL wo"
    and r: "WriteImplWALOnly_group cfg env wo ao pls dm grp db = (ret, g', db')"
  shows "last_allocated_sequence db' = last_allocated_sequence db + wal_only_seq_inc ao grp"
    and "\<not> list_ex is_AddRecord (new_events db db')"
proof -
  show "last_allocated_sequence db' = last_allocated_sequence db + wal_only_seq_inc ao grp"
    by (rule WriteImplWALOnly_group_props(2) [OF r ne])
  from WriteImplWALOnly_group_props(1) [OF r ne] obtain wal prc st where
    ev: "events db' = events db @ [EvEnterAsBatchGroupLeader] @ wal @
             wal_only_mid cfg env wo (CallbackFailed (checked (hd grp))) @ prc @
             (if pls then [EvSetLastSequence (last_allocated_sequence db + wal_only_seq_inc ao grp)]
              else []) @ [EvExitAsBatchGroupLeader st]"
    and w: "disableWAL wo \<longrightarrow> wal = []"
    and k2: "list_all is_pre_release prc"
    by blast
  define mid where "mid = wal_only_mid cfg env wo (CallbackFailed (checked (hd grp)))"
  define post where "post =
     (if pls then [EvSetLastSequence (last_allocated_sequence db + wal_only_seq_inc ao grp)]
      else []) @ [EvExitAsBatchGroupLeader st]"
  from w dw have wal: "wal = []" by simp
  have m: "\<not> list_ex is_AddRecord mid"
    unfolding mid_def by (rule wal_only_mid_kinds)
  from pre_release_not_others [OF k2] have pa: "\<not> list_ex is_AddRecord prc" by blast
  have po: "\<not> list_ex is_AddRecord post"
    unfolding post_def by simp
  have "events db' = events db @ ([EvEnterAsBatchGroupLeader] @ mid @ prc @ post)"
    unfolding mid_def post_def using ev wal by simp
  then have e: "new_events db db' = [EvEnterAsBatchGroupLeader] @ mid @ prc @ post"
    by (rule new_events_append)
  show "\<not> list_ex is_AddRecord (new_events db db')"
    unfolding e using m pa po by simp
qed

lemma WriteImpl_group_wal_error:
  assumes fr: "list_all fresh grp" and ne: "grp \<noteq> []" and pre: "ok pre_st"
    and c: "WriteImpl_commit cfg env wo dm nls nlds last_seq grp db = (st, io_s, last2, g4, ipg, db4)"
    and nio: "\<not> ok io_s"
    and r: "WriteImpl_group cfg env wo dm nls nlds pre_st last_seq grp db = (ret, g', db')"
  shows "filter is_SetBGError (new_events db db') =
           (if \<not> CallbackFailed (checked (hd grp)) then io_check_events cfg io_s else [])"
    and "ret = (if ok (finish_status cfg env nls io_s) then FinalStatus (hd g')
                else finish_status cfg env nls io_s)"
    and "\<not> (nls \<and> two_write_queues cfg) \<longrightarrow> ret = io_s"
proof -
  note cp = WriteImpl_commit_props [OF fr ne c]
  from r pre c have f: "WriteImpl_finish cfg env nls nlds (st, io_s, last2, g4, ipg, db4) = (ret, g', db')"
    by (simp add: WriteImpl_group_eq)
  note fe = WriteImpl_finish_eq [OF f]
  from fe have g': "g' = g4" by (rule conjunct1)
  from cp(7) nio have st: "st = io_s" and ipg: "\<not> ipg" by blast+
  from st nio have nst: "\<not> ok st" by simp
  with cp(9) have sh: "status (hd g4) = status (hd grp)" by blast
  from fr ne have "ok (status (hd grp))" by (cases grp) (simp_all add: fresh_def)
  with sh have okh: "ok (status (hd g4))" by simp
  from cp(6) obtain wal prc mem where
    ev: "events db4 = events db @ wal @ prc @ mem"
    and k1: "list_all is_wal_event wal" and k2: "list_all is_pre_release prc"
    and k3: "list_all is_memtable_event mem"
    by blast
  define fin where "fin = finish_events cfg env nls st io_s last2 (hd g4) ipg"
  from fe have "events db' = events db4 @ fin" unfolding fin_def by blast
  with ev have "events db' = events db @ (wal @ prc @ mem @ fin)" by simp
  then have e: "new_events db db' = wal @ prc @ mem @ fin" by (rule new_events_append)
  have ff: "filter is_SetBGError fin =
      (if \<not> CallbackFailed (checked (hd grp)) then io_check_events cfg io_s else [])"
    unfolding fin_def finish_events_SetBGError using nio okh cp(8) by simp
  show "filter is_SetBGError (new_events db db') =
           (if \<not> CallbackFailed (checked (hd grp)) then io_check_events cfg io_s else [])"
    unfolding e filter_append wal_not_SetBGError [OF k1] pre_release_not_SetBGError [OF k2]
      memtable_not_SetBGError [OF k3] ff by simp
  from fe have "ret = (if ok (finish_status cfg env nls st) then FinalStatus (hd g4)
          else finish_status cfg env nls st)" by blast
  then show rr: "ret = (if ok (finish_status cfg env nls io_s) then FinalStatus (hd g')
                else finish_status cfg env nls io_s)"
    unfolding st g' .
  show "\<not> (nls \<and> two_write_queues cfg) \<longrightarrow> ret = io_s"
  proof
    assume "\<not> (nls \<and> two_write_queues cfg)"
    with nio have "finish_status cfg env nls io_s = io_s"
      by (auto simp: finish_status_def)
    with rr nio show "ret = io_s" by simp
  qed
qed

lemma WriteImplWALOnly_group_wal_error:
  assumes ne: "grp \<noteq> []" and dw: "\<not> disableWAL wo" and nio: "\<not> ok (AddRecord_status env)"
    and r: "WriteImplWALOnly_group cfg env wo ao pls dm grp db = (ret, g', db')"
  shows "filter is_SetBGError (new_events db db') =
           (if \<not> CallbackFailed (checked (hd grp)) then io_check_events cfg (AddRecord_status env)
            else [])"
    and "ret = AddRecord_status env"
proof -
  from dw have io: "wal_only_io_status env wo = AddRecord_status env"
    by (simp add: wal_only_io_status_def)
  with nio have ws: "wal_only_status cfg env wo = AddRecord_status env"
    by (simp add: wal_only_status_def)
  from WriteImplWALOnly_group_props(1) [OF r ne] obtain wal prc st where
    ev: "events db' = events db @ [EvEnterAsBatchGroupLeader] @ wal @
             wal_only_mid cfg env wo (CallbackFailed (checked (hd grp))) @ prc @
             (if pls then [EvSetLastSequence (last_allocated_sequence db + wal_only_seq_inc ao grp)]
              else []) @ [EvExitAsBatchGroupLeader st]"
    and k1: "list_all is_wal_event wal" and k2: "list_all is_pre_release prc"
    and ret: "ret = (if ok st then FinalStatus (hd g') else st)"
    and st: "\<not> ok (wal_only_status cfg env wo) \<longrightarrow> st = wal_only_status cfg env wo"
    by blast
  define mid where "mid = wal_only_mid cfg env wo (CallbackFailed (checked (hd grp)))"
  define post where "post =
     (if pls then [EvSetLastSequence (last_allocated_sequence db + wal_only_seq_inc ao grp)]
      else []) @ [EvExitAsBatchGroupLeader st]"
  have "events db' = events db @ ([EvEnterAsBatchGroupLeader] @ wal @ mid @ prc @ post)"
    unfolding mid_def post_def using ev by simp
  then have e: "new_events db db' = [EvEnterAsBatchGroupLeader] @ wal @ mid @ prc @ post"
    by (rule new_events_append)
  have fm: "filter is_SetBGError mid =
      (if \<not> CallbackFailed (checked (hd grp)) then io_check_events cfg (AddRecord_status env)
       else [])"
    unfolding mid_def wal_only_mid_def io using nio by (simp add: io_check_events_def)
  have fp: "filter is_SetBGError post = []"
    unfolding post_def by simp
  show "filter is_SetBGError (new_events db db') =
           (if \<not> CallbackFailed (checked (hd grp)) then io_check_events cfg (AddRecord_status env)
            else [])"
    unfolding e filter_append wal_not_SetBGError [OF k1] pre_release_not_SetBGError [OF k2]
      fm fp by simp
  from st ws nio have "st = AddRecord_status env" by simp
  with ret nio show "ret = AddRecord_status env" by simp
qed

lemma MergeBatch_loop_contents:
  "MergeBatch_loop g (m, n, c) = (m', n', c') \<Longrightarrow>
   rep m' = rep m @ merged_rep g \<and> batch_count m' = batch_count m + merged_count g \<and>
   batch_sequence m' = batch_sequence m"
proof (induction g arbitrary: m n c)
  case Nil
  then show ?case by (simp add: merged_rep_def merged_count_def)
next
  case (Cons w ws)
  show ?case
  proof (cases "CallbackFailed w")
    case True
    with Cons.prems have "MergeBatch_loop ws (m, n, c) = (m', n', c')" by simp
    from Cons.IH [OF this] True show ?thesis
      by (simp add: merged_rep_def merged_count_def)
  next
    case False
    with Cons.prems have "MergeBatch_loop ws (Append m (batch w) True, n + 1,
        if IsLatestPersistentState (batch w) then Some (batch w) else c) = (m', n', c')"
      by simp
    from Cons.IH [OF this] False show ?thesis
      by (simp add: merged_rep_def merged_count_def Append_def ac_simps)
  qed
qed

lemma MergeBatch_cases:
  assumes mb: "MergeBatch g tmp = (ip, m, n, c)"
  shows "ip \<longleftrightarrow> length g = 1 \<and> \<not> CallbackFailed (hd g) \<and> WalTerminationPoint (batch (hd g)) = None"
    and "ip \<longrightarrow> m = batch (hd g)"
    and "\<not> ip \<longrightarrow> rep m = rep tmp @ merged_rep g \<and> batch_count m = batch_count tmp + merged_count g"
proof -
  let ?c = "length g = 1 \<and> \<not> CallbackFailed (hd g) \<and> WalTerminationPoint (batch (hd g)) = None"
  show "ip \<longleftrightarrow> ?c"
    using mb by (auto simp: MergeBatch_def split: if_splits prod.splits)
  show "ip \<longrightarrow> m = batch (hd g)"
    using mb by (auto simp: MergeBatch_def split: if_splits prod.splits)
  show "\<not> ip \<longrightarrow> rep m = rep tmp @ merged_rep g \<and> batch_count m = batch_count tmp + merged_count g"
  proof
    assume nip: "\<not> ip"
    with mb have nc: "\<not> ?c"
      by (auto simp: MergeBatch_def split: if_splits prod.splits)
    obtain m1 n1 c1 where l: "MergeBatch_loop g (tmp, 0, None) = (m1, n1, c1)"
      by (cases "MergeBatch_loop g (tmp, 0, None)")
    have "m = m1"
      using mb unfolding MergeBatch_def if_not_P [OF nc] l by simp
    with MergeBatch_loop_contents [OF l]
    show "rep m = rep tmp @ merged_rep g \<and> batch_count m = batch_count tmp + merged_count g"
      by simp
  qed
qed

lemma stamp_leader_batches:
  "batch (hd (stamp_leader True r (set_log_used True n lf g))) = r"
  "map batch (stamp_leader False r (set_log_used False n lf g)) = map batch g"
  by (simp_all add: stamp_leader_def set_log_used_def comp_def)

lemma WriteToWAL_record:
  assumes r: "WriteToWAL env g nls nlds s db = (io_s, g', db')"
    and mb: "MergeBatch g (tmp_batch db) = (ip, m, n, c)"
  shows "\<exists>es. new_events db db' = EvAddRecord (SetSequence m s) # es \<and> \<not> list_ex is_AddRecord es"
    and "g' = stamp_leader ip (SetSequence m s) (set_log_used ip n (logfile_number db) g)"
    and "tmp_batch db' = (if ip then tmp_batch db else Clear)"
proof -
  obtain io1 es1 where sl: "sync_logs (Sync_status env) (AddRecord_status env) = (io1, es1)"
    by (cases "sync_logs (Sync_status env) (AddRecord_status env)")
  from sync_logs_events [OF sl] have es1: "\<not> list_ex is_AddRecord es1"
    by (auto simp: list_ex_iff)
  define tail where "tail =
    (if ok (AddRecord_status env) \<and> nls
     then (if ok io1 \<and> nlds then es1 @ [EvFsyncWalDir] else es1) else [])"
  have t: "\<not> list_ex is_AddRecord tail"
    unfolding tail_def using es1 by simp
  from r have ev: "events db' = events db @ (EvAddRecord (SetSequence m s) # tail)"
    unfolding tail_def
    by (auto simp: WriteToWAL_def mb sl Let_def WriteToWAL_batch_eq cache_state_def
        split: if_splits option.splits)
  from new_events_append [OF ev] t
  show "\<exists>es. new_events db db' = EvAddRecord (SetSequence m s) # es \<and> \<not> list_ex is_AddRecord es"
    by blast
  from r show "g' = stamp_leader ip (SetSequence m s) (set_log_used ip n (logfile_number db) g)"
    by (simp add: WriteToWAL_def mb Let_def WriteToWAL_batch_eq)
  from r show "tmp_batch db' = (if ip then tmp_batch db else Clear)"
    by (auto simp: WriteToWAL_def mb sl Let_def WriteToWAL_batch_eq cache_state_def emit_def
        split: if_splits option.splits)
qed

lemma ConcurrentWriteToWAL_record:
  assumes r: "ConcurrentWriteToWAL env g seq_inc db = (io_s, last0, g', db')"
    and mb: "MergeBatch g Clear = (ip, m, n, c)"
  shows "new_events db db' = [EvAddRecord (SetSequence m (last_allocated_sequence db + 1))]"
    and "g' = stamp_leader ip (SetSequence m (last_allocated_sequence db + 1))
               (set_log_used ip n (logfile_number db) g)"
proof -
  from r have "events db' = events db @ [EvAddRecord (SetSequence m (last_allocated_sequence db + 1))]"
    by (auto simp: ConcurrentWriteToWAL_def mb Let_def WriteToWAL_batch_eq
        FetchAddLastAllocatedSequence_def emit_def cache_state_def split: option.splits)
  then show "new_events db db' = [EvAddRecord (SetSequence m (last_allocated_sequence db + 1))]"
    by (rule new_events_append)
  from r show "g' = stamp_leader ip (SetSequence m (last_allocated_sequence db + 1))
               (set_log_used ip n (logfile_number db) g)"
    by (auto simp: ConcurrentWriteToWAL_def mb Let_def WriteToWAL_batch_eq
        FetchAddLastAllocatedSequence_def)
qed


lemma merged_record:
  assumes mb: "MergeBatch g tmp = (ip, m, n, c)"
    and g': "g' = stamp_leader ip (SetSequence m s) (set_log_used ip n lf g)"
  shows "batch_sequence (SetSequence m s) = s \<and>
       (if length g = 1 \<and> \<not> CallbackFailed (hd g) \<and> WalTerminationPoint (batch (hd g)) = None
        then SetSequence m s = SetSequence (batch (hd g)) s \<and> batch (hd g') = SetSequence m s
        else rep (SetSequence m s) = rep tmp @ merged_rep g \<and>
             batch_count (SetSequence m s) = batch_count tmp + merged_count g \<and>
             map batch g' = map batch g)"
proof (cases ip)
  case True
  from MergeBatch_cases(1) [OF mb] True
  have c: "length g = 1 \<and> \<not> CallbackFailed (hd g) \<and> WalTerminationPoint (batch (hd g)) = None"
    by blast
  from MergeBatch_cases(2) [OF mb] True have m: "m = batch (hd g)" by blast
  have b: "batch (hd g') = SetSequence m s"
    unfolding g' using True by (simp add: stamp_leader_batches)
  have "batch_sequence (SetSequence m s) = s" by (simp add: SetSequence_def)
  with c m b show ?thesis by simp
next
  case False
  from MergeBatch_cases(1) [OF mb] False
  have c: "\<not> (length g = 1 \<and> \<not> CallbackFailed (hd g) \<and> WalTerminationPoint (batch (hd g)) = None)"
    by blast
  from MergeBatch_cases(3) [OF mb] False
  have m: "rep m = rep tmp @ merged_rep g" "batch_count m = batch_count tmp + merged_count g"
    by blast+
  have b: "map batch g' = map batch g"
    unfolding g' using False by (simp add: stamp_leader_batches)
  have q: "batch_sequence (SetSequence m s) = s" "rep (SetSequence m s) = rep m"
    "batch_count (SetSequence m s) = batch_count m"
    by (simp_all add: SetSequence_def)
  show ?thesis
    unfolding if_not_P [OF c] q m using b by simp
qed

section \<open>The loops of \<open>DelayWrite\<close>\<close>

lemma DelayWrite_sleep_spec:
  "DelayWrite_sleep env fuel dl t d db = Some (t', d', db') \<Longrightarrow>
   t \<le> t' \<and> t' - t \<le> fuel \<and>
   (\<forall>i. t \<le> i \<and> i < t' \<longrightarrow> NeedsDelay (world env i) \<and> \<not> dl \<le> NowMicros (world env i)) \<and>
   \<not> (NeedsDelay (world env t') \<and> \<not> dl \<le> NowMicros (world env t'))"
proof (induction fuel arbitrary: t d db)
  case 0
  then show ?case by (auto split: if_splits)
next
  case (Suc fuel)
  show ?case
  proof (cases "NeedsDelay (world env t) \<and> \<not> dl \<le> NowMicros (world env t)")
    case True
    with Suc.prems have "DelayWrite_sleep env fuel dl (Suc t) True
        (emit [EvSleepForMicroseconds 1000] db) = Some (t', d', db')"
      by simp
    from Suc.IH [OF this] have le: "Suc t \<le> t'" and f: "t' - Suc t \<le> fuel"
      and a: "\<forall>i. Suc t \<le> i \<and> i < t' \<longrightarrow>
                NeedsDelay (world env i) \<and> \<not> dl \<le> NowMicros (world env i)"
      and s: "\<not> (NeedsDelay (world env t') \<and> \<not> dl \<le> NowMicros (world env t'))"
      by blast+
    have "\<forall>i. t \<le> i \<and> i < t' \<longrightarrow> NeedsDelay (world env i) \<and> \<not> dl \<le> NowMicros (world env i)"
    proof (intro allI impI)
      fix i assume i: "t \<le> i \<and> i < t'"
      show "NeedsDelay (world env i) \<and> \<not> dl \<le> NowMicros (world env i)"
      proof (cases "i = t")
        case True
        with \<open>NeedsDelay (world env t) \<and> \<not> dl \<le> NowMicros (world env t)\<close> show ?thesis by simp
      next
        case False
        with i have "Suc t \<le> i \<and> i < t'" by arith
        with a show ?thesis by blast
      qed
    qed
    moreover from le f have "t \<le> t'" "t' - t \<le> Suc fuel" by arith+
    ultimately show ?thesis using s by blast
  next
    case False
    with Suc.prems have "t' = t" by auto
    with False show ?thesis by auto
  qed
qed

lemma DelayWrite_sleep_total:
  "\<not> (NeedsDelay (world env (t + k)) \<and> \<not> dl \<le> NowMicros (world env (t + k))) \<Longrightarrow> k \<le> fuel \<Longrightarrow>
   DelayWrite_sleep env fuel dl t d db \<noteq> None"
proof (induction fuel arbitrary: t k d db)
  case 0
  then show ?case by simp
next
  case (Suc fuel)
  show ?case
  proof (cases "NeedsDelay (world env t) \<and> \<not> dl \<le> NowMicros (world env t)")
    case True
    with Suc.prems(1) have "k \<noteq> 0" by (cases k) auto
    then obtain k' where k: "k = Suc k'" by (cases k) auto
    with Suc.prems have "\<not> (NeedsDelay (world env (Suc t + k')) \<and>
        \<not> dl \<le> NowMicros (world env (Suc t + k')))" "k' \<le> fuel"
      by simp_all
    from Suc.IH [OF this] True show ?thesis by simp
  next
    case False
    then show ?thesis by auto
  qed
qed

lemma DelayWrite_wait_spec:
  "\<not> no_slowdown wo \<Longrightarrow> DelayWrite_wait env fuel wo t d db = Some (r, t', d', db') \<Longrightarrow>
   r = None \<and> t \<le> t' \<and> t' - t \<le> fuel \<and> (\<forall>i. t \<le> i \<and> i < t' \<longrightarrow> waits_at env i) \<and>
   \<not> waits_at env t'"
proof (induction fuel arbitrary: t d db)
  case 0
  then show ?case by (auto simp: waits_at_def split: if_splits)
next
  case (Suc fuel)
  show ?case
  proof (cases "waits_at env t")
    case True
    with Suc.prems have "DelayWrite_wait env fuel wo (Suc t) True
        (emit [EvBeginWriteStall, EvWaitBgCv, EvEndWriteStall] db) = Some (r, t', d', db')"
      by (simp add: waits_at_def)
    from Suc.IH [OF Suc.prems(1) this] have r: "r = None"
      and le: "Suc t \<le> t'" and f: "t' - Suc t \<le> fuel"
      and a: "\<forall>i. Suc t \<le> i \<and> i < t' \<longrightarrow> waits_at env i"
      and s: "\<not> waits_at env t'"
      by blast+
    have "\<forall>i. t \<le> i \<and> i < t' \<longrightarrow> waits_at env i"
    proof (intro allI impI)
      fix i assume i: "t \<le> i \<and> i < t'"
      show "waits_at env i"
      proof (cases "i = t")
        case True
        with \<open>waits_at env t\<close> show ?thesis by simp
      next
        case False
        with i have "Suc t \<le> i \<and> i < t'" by arith
        with a show ?thesis by blast
      qed
    qed
    moreover from le f have "t \<le> t'" "t' - t \<le> Suc fuel" by arith+
    ultimately show ?thesis using r s by blast
  next
    case False
    with Suc.prems have "t' = t" "r = None" by (auto simp: waits_at_def)
    with False show ?thesis by auto
  qed
qed

lemma DelayWrite_wait_total:
  "\<not> waits_at env (t + k) \<Longrightarrow> k \<le> fuel \<Longrightarrow> DelayWrite_wait env fuel wo t d db \<noteq> None"
proof (induction fuel arbitrary: t k d db)
  case 0
  then show ?case by (simp add: waits_at_def)
next
  case (Suc fuel)
  show ?case
  proof (cases "waits_at env t")
    case True
    with Suc.prems(1) have "k \<noteq> 0" by (cases k) auto
    then obtain k' where k: "k = Suc k'" by (cases k) auto
    with Suc.prems have "\<not> waits_at env (Suc t + k')" "k' \<le> fuel"
      by simp_all
    from Suc.IH [OF this] True show ?thesis by (simp add: waits_at_def)
  next
    case False
    then show ?thesis by (auto simp: waits_at_def)
  qed
qed

lemma DelayWrite_wait_no_slowdown:
  "no_slowdown wo \<Longrightarrow>
   DelayWrite_wait env fuel wo t d db =
     Some (if waits_at env t then Some (Incomplete ''Write stall'') else None, t, d, db)"
  by (cases fuel) (simp_all add: waits_at_def)


lemma DelayWrite_tail_spec:
  assumes ns: "\<not> no_slowdown wo"
    and r: "DelayWrite_tail env fuel wo t d db = Some (s, db')"
  shows "\<exists>j. (\<forall>i<j. waits_at env (t + i)) \<and> \<not> waits_at env (t + j) \<and>
           db' = emit (concat (replicate j stall_wait)) db \<and> s = DelayWrite_status env (t + j)"
proof -
  from r obtain x t' d' db1 where
    w: "DelayWrite_wait env fuel wo t d db = Some (x, t', d', db1)"
    by (cases "DelayWrite_wait env fuel wo t d db") (auto simp: DelayWrite_tail_def)
  from DelayWrite_wait_spec [OF ns w] have x: "x = None" and le: "t \<le> t'"
    and a: "\<forall>i. t \<le> i \<and> i < t' \<longrightarrow> waits_at env i" and st: "\<not> waits_at env t'"
    by blast+
  from DelayWrite_wait_emit [OF w] have e: "db1 = emit (concat (replicate (t' - t) stall_wait)) db"
    by blast
  from r w x have s: "s = DelayWrite_status env t'" and db': "db' = db1"
    by (simp_all add: DelayWrite_tail_def DelayWrite_status_def Let_def)
  from le have tt: "t + (t' - t) = t'" by simp
  have "\<forall>i<t' - t. waits_at env (t + i)"
  proof (intro allI impI)
    fix i assume "i < t' - t"
    then have "t \<le> t + i \<and> t + i < t'" by arith
    with a show "waits_at env (t + i)" by blast
  qed
  with st e s db' tt have "(\<forall>i<t' - t. waits_at env (t + i)) \<and> \<not> waits_at env (t + (t' - t)) \<and>
           db' = emit (concat (replicate (t' - t) stall_wait)) db \<and>
           s = DelayWrite_status env (t + (t' - t))"
    by simp
  then show ?thesis by (rule exI)
qed

lemma DelayWrite_tail_total:
  "\<not> waits_at env (t + j) \<Longrightarrow> j \<le> fuel \<Longrightarrow> DelayWrite_tail env fuel wo t d db \<noteq> None"
proof -
  assume a: "\<not> waits_at env (t + j)" "j \<le> fuel"
  have "DelayWrite_wait env fuel wo t d db \<noteq> None"
    by (rule DelayWrite_wait_total [OF a])
  then obtain x t' d' db1 where
    "DelayWrite_wait env fuel wo t d db = Some (x, t', d', db1)"
    by auto
  then show ?thesis
    by (cases x) (simp_all add: DelayWrite_tail_def Let_def)
qed

lemma DelayWrite_no_slowdown:
  assumes ns: "no_slowdown wo"
  shows "DelayWrite env fuel n wo db =
     Some (if 0 < GetDelay env n \<or> waits_at env 0 then Incomplete ''Write stall''
           else DelayWrite_status env 0, db)"
proof (cases "0 < GetDelay env n")
  case True
  with ns show ?thesis by (simp add: DelayWrite_def Let_def)
next
  case False
  with ns show ?thesis
    by (simp add: DelayWrite_def Let_def DelayWrite_tail_def DelayWrite_wait_no_slowdown
        DelayWrite_status_def)
qed

lemma sleeps_at_iff:
  "0 < GetDelay env n \<Longrightarrow>
   sleeps_at env n t \<longleftrightarrow>
     NeedsDelay (world env t) \<and> \<not> NowMicros (world env 0) + GetDelay env n \<le> NowMicros (world env t)"
  by (auto simp: sleeps_at_def)

lemma DelayWrite_blocking_spec:
  assumes ns: "\<not> no_slowdown wo"
    and r: "DelayWrite env fuel n wo db = Some (s, db')"
  shows "\<exists>k j. (\<forall>i<k. sleeps_at env n i) \<and> \<not> sleeps_at env n k \<and>
           (\<forall>i<j. waits_at env (k + i)) \<and> \<not> waits_at env (k + j) \<and>
           new_events db db' =
             (if 0 < GetDelay env n
              then EvBeginWriteStall # replicate k (EvSleepForMicroseconds 1000) @ [EvEndWriteStall]
              else []) @ concat (replicate j stall_wait) \<and>
           s = DelayWrite_status env (k + j)"
proof (cases "0 < GetDelay env n")
  case True
  let ?dl = "NowMicros (world env 0) + GetDelay env n"
  from r True ns obtain t d db1 where
    sl: "DelayWrite_sleep env fuel ?dl 0 False (emit [EvBeginWriteStall] db) = Some (t, d, db1)"
    and tl: "DelayWrite_tail env fuel wo t d (emit [EvEndWriteStall] db1) = Some (s, db')"
    by (auto simp: DelayWrite_def Let_def split: option.splits)
  from DelayWrite_sleep_spec [OF sl]
  have a: "\<forall>i. 0 \<le> i \<and> i < t \<longrightarrow> NeedsDelay (world env i) \<and> \<not> ?dl \<le> NowMicros (world env i)"
    and st: "\<not> (NeedsDelay (world env t) \<and> \<not> ?dl \<le> NowMicros (world env t))"
    by blast+
  from a have a': "\<forall>i<t. sleeps_at env n i"
    unfolding sleeps_at_iff [OF True] by simp
  from st have st': "\<not> sleeps_at env n t"
    unfolding sleeps_at_iff [OF True] .
  from DelayWrite_sleep_emit [OF sl]
  have e1: "db1 = emit (replicate t (EvSleepForMicroseconds 1000)) (emit [EvBeginWriteStall] db)"
    by simp
  from DelayWrite_tail_spec [OF ns tl] obtain j where
    j: "\<forall>i<j. waits_at env (t + i)" "\<not> waits_at env (t + j)"
    and e2: "db' = emit (concat (replicate j stall_wait)) (emit [EvEndWriteStall] db1)"
    and s: "s = DelayWrite_status env (t + j)"
    by blast
  have "db' = emit ((EvBeginWriteStall # replicate t (EvSleepForMicroseconds 1000) @
      [EvEndWriteStall]) @ concat (replicate j stall_wait)) db"
    unfolding e2 e1 by (simp add: emit_emit)
  then have ev: "new_events db db' =
      (EvBeginWriteStall # replicate t (EvSleepForMicroseconds 1000) @ [EvEndWriteStall]) @
      concat (replicate j stall_wait)"
    by (simp only: new_events_emit)
  have "(\<forall>i<t. sleeps_at env n i) \<and> \<not> sleeps_at env n t \<and>
           (\<forall>i<j. waits_at env (t + i)) \<and> \<not> waits_at env (t + j) \<and>
           new_events db db' =
             (if 0 < GetDelay env n
              then EvBeginWriteStall # replicate t (EvSleepForMicroseconds 1000) @ [EvEndWriteStall]
              else []) @ concat (replicate j stall_wait) \<and>
           s = DelayWrite_status env (t + j)"
    unfolding if_P [OF True] using a' st' j ev s by blast
  then show ?thesis by blast
next
  case False
  from r False have tl: "DelayWrite_tail env fuel wo 0 False db = Some (s, db')"
    by (simp add: DelayWrite_def Let_def)
  from DelayWrite_tail_spec [OF ns tl] obtain j where
    j: "\<forall>i<j. waits_at env (0 + i)" "\<not> waits_at env (0 + j)"
    and e2: "db' = emit (concat (replicate j stall_wait)) db"
    and s: "s = DelayWrite_status env (0 + j)"
    by blast
  from False have ns0: "\<not> sleeps_at env n 0" by (simp add: sleeps_at_def)
  from e2 have ev: "new_events db db' = [] @ concat (replicate j stall_wait)"
    by simp
  have "(\<forall>i<0. sleeps_at env n i) \<and> \<not> sleeps_at env n 0 \<and>
           (\<forall>i<j. waits_at env (0 + i)) \<and> \<not> waits_at env (0 + j) \<and>
           new_events db db' =
             (if 0 < GetDelay env n
              then EvBeginWriteStall # replicate 0 (EvSleepForMicroseconds 1000) @ [EvEndWriteStall]
              else []) @ concat (replicate j stall_wait) \<and>
           s = DelayWrite_status env (0 + j)"
    unfolding if_not_P [OF False] using ns0 j ev s by blast
  then show ?thesis by blast
qed

lemma DelayWrite_blocking_total:
  assumes a: "\<forall>i<k. sleeps_at env n i" and b: "\<not> sleeps_at env n k" and kf: "k \<le> fuel"
    and c: "\<not> waits_at env (k + j)" and jf: "j \<le> fuel"
  shows "DelayWrite env fuel n wo db \<noteq> None"
proof (cases "no_slowdown wo")
  case True
  then show ?thesis by (simp add: DelayWrite_no_slowdown)
next
  case ns: False
  show ?thesis
  proof (cases "0 < GetDelay env n")
    case True
    let ?dl = "NowMicros (world env 0) + GetDelay env n"
    from b have "\<not> (NeedsDelay (world env (0 + k)) \<and> \<not> ?dl \<le> NowMicros (world env (0 + k)))"
      unfolding sleeps_at_iff [OF True] by simp
    then have "DelayWrite_sleep env fuel ?dl 0 False (emit [EvBeginWriteStall] db) \<noteq> None"
      using kf by (rule DelayWrite_sleep_total)
    then obtain t d db1 where
      sl: "DelayWrite_sleep env fuel ?dl 0 False (emit [EvBeginWriteStall] db) = Some (t, d, db1)"
      by auto
    from DelayWrite_sleep_spec [OF sl]
    have a2: "\<forall>i. 0 \<le> i \<and> i < t \<longrightarrow> NeedsDelay (world env i) \<and> \<not> ?dl \<le> NowMicros (world env i)"
      and st: "\<not> (NeedsDelay (world env t) \<and> \<not> ?dl \<le> NowMicros (world env t))"
      by blast+
    from a2 have a': "\<forall>i<t. sleeps_at env n i"
      unfolding sleeps_at_iff [OF True] by simp
    from st have st': "\<not> sleeps_at env n t"
      unfolding sleeps_at_iff [OF True] .
    have "t = k"
    proof (rule ccontr)
      assume "t \<noteq> k"
      then have "t < k \<or> k < t" by arith
      with a b a' st' show False by blast
    qed
    with c have "\<not> waits_at env (t + j)" by simp
    from DelayWrite_tail_total [OF this jf]
    have "DelayWrite_tail env fuel wo t d (emit [EvEndWriteStall] db1) \<noteq> None" .
    with True ns sl show ?thesis
      by (simp add: DelayWrite_def Let_def)
  next
    case False
    then have "\<And>i. \<not> sleeps_at env n i" by (simp add: sleeps_at_def)
    with a have "k = 0" by (cases k) auto
    with c have "\<not> waits_at env (0 + j)" by simp
    from DelayWrite_tail_total [OF this jf]
    have "DelayWrite_tail env fuel wo 0 False db \<noteq> None" .
    with False show ?thesis
      by (simp add: DelayWrite_def Let_def)
  qed
qed

section \<open>Claim C6: the WAL-rotation threshold\<close>

text \<open>
  Claim C6, as amended.  The threshold is \<open>max_total_wal_size\<close> when that option is not
  zero and otherwise four times \<open>max_total_in_memory_state\<close> (in \<open>uint64_t\<close>
  arithmetic).  A call of \<open>PreprocessWrite\<close> that returns has switched the WAL exactly
  when the database was not stopped by a background error, is not in
  single-column-family mode, and the total WAL size exceeds the threshold.  The call does
  return when the write controller neither is stopped nor needs a delay and no log sync is
  requested.
\<close>

theorem PreprocessWrite_switches_wal_iff:
  "GetMaxTotalWalSize db =
     (if max_total_wal_size db \<noteq> 0 then max_total_wal_size db
      else 4 * max_total_in_memory_state db) \<and>
   (PreprocessWrite cfg env fuel wo nls db = Some (st, nls', db') \<longrightarrow>
      (EvSwitchWAL \<in> set (new_events db db') \<longleftrightarrow>
         \<not> (IsDBStopped (world env 0) \<and> \<not> ok (GetBGError (world env 0))) \<and>
         \<not> single_column_family_mode db \<and>
         GetMaxTotalWalSize db < total_log_size db)) \<and>
   (\<not> IsStopped (world env 0) \<and> \<not> NeedsDelay (world env 0) \<and> \<not> nls \<longrightarrow>
      PreprocessWrite cfg env fuel wo nls db \<noteq> None)"
proof (intro conjI impI)
  show "GetMaxTotalWalSize db =
     (if max_total_wal_size db \<noteq> 0 then max_total_wal_size db
      else 4 * max_total_in_memory_state db)"
    by (simp add: GetMaxTotalWalSize_def)
next
  assume a: "PreprocessWrite cfg env fuel wo nls db = Some (st, nls', db')"
  from PreprocessWrite_events [OF a] obtain es where
    ev: "events db' = events db @
           (if triggers_switch_wal cfg env db then [EvWaitForPendingWrites, EvSwitchWAL] else []) @ es"
    and es: "set es \<subseteq> {EvWaitForPendingWrites, EvHandleWriteBufferFull, EvTrimMemtableHistory,
                  EvScheduleFlushes, EvWaitLogSyncCv, EvSetGettingSynced} \<union> stall_events"
    by blast
  from es have "EvSwitchWAL \<notin> set es"
    by (auto simp: stall_events_def)
  with ev have "EvSwitchWAL \<in> set (new_events db db') \<longleftrightarrow> triggers_switch_wal cfg env db"
    by (simp add: new_events_def)
  then show "EvSwitchWAL \<in> set (new_events db db') \<longleftrightarrow>
         \<not> (IsDBStopped (world env 0) \<and> \<not> ok (GetBGError (world env 0))) \<and>
         \<not> single_column_family_mode db \<and>
         GetMaxTotalWalSize db < total_log_size db"
    by (simp add: triggers_switch_wal_def)
next
  assume "\<not> IsStopped (world env 0) \<and> \<not> NeedsDelay (world env 0) \<and> \<not> nls"
  then show "PreprocessWrite cfg env fuel wo nls db \<noteq> None"
    by (simp add: PreprocessWrite_def PreprocessWrite_delay_def PreprocessWrite_log_sync_def)
qed

theorem PreprocessWrite_switches_wal_iff_witness:
  "PreprocessWrite example_cfg example_env 0 example_options False (example_db\<lparr>total_log_size := 5000\<rparr>) =
     Some (OK, False,
       switch_advance example_cfg example_env
         (emit [EvWaitForPendingWrites, EvSwitchWAL] (example_db\<lparr>total_log_size := 5000\<rparr>))) \<and>
   \<not> IsStopped (world example_env 0) \<and> \<not> NeedsDelay (world example_env 0) \<and>
   \<not> IsDBStopped (world example_env 0) \<and>
   \<not> single_column_family_mode (example_db\<lparr>total_log_size := 5000\<rparr>) \<and>
   GetMaxTotalWalSize (example_db\<lparr>total_log_size := 5000\<rparr>) = 4096 \<and>
   EvSwitchWAL \<in> set (new_events (example_db\<lparr>total_log_size := 5000\<rparr>)
     (switch_advance example_cfg example_env
        (emit [EvWaitForPendingWrites, EvSwitchWAL] (example_db\<lparr>total_log_size := 5000\<rparr>))))"
proof -
  let ?db = "example_db\<lparr>total_log_size := 5000\<rparr>"
  let ?db' = "switch_advance example_cfg example_env (emit [EvWaitForPendingWrites, EvSwitchWAL] ?db)"
  have thr: "GetMaxTotalWalSize ?db = 4096"
    by (simp add: GetMaxTotalWalSize_def example_db_def)
  have sw: "PreprocessWrite_switch_wal example_cfg example_env ?db = (OK, ?db')"
    by (simp add: PreprocessWrite_switch_wal_def thr example_env_def example_world_def)
       (simp add: example_db_def)
  have run: "PreprocessWrite example_cfg example_env 0 example_options False ?db = Some (OK, False, ?db')"
    by (simp add: PreprocessWrite_def sw PreprocessWrite_flushes_def PreprocessWrite_delay_def
        PreprocessWrite_log_sync_def)
       (simp add: example_env_def example_world_def)
  have calm: "\<not> IsStopped (world example_env 0) \<and> \<not> NeedsDelay (world example_env 0) \<and>
      \<not> IsDBStopped (world example_env 0)"
    by (simp add: example_env_def example_world_def)
  have single: "\<not> single_column_family_mode ?db"
    by (simp add: example_db_def)
  from PreprocessWrite_switches_wal_iff [of ?db example_cfg example_env 0 example_options False OK False ?db']
    run calm single thr
  have "EvSwitchWAL \<in> set (new_events ?db ?db')"
    by (simp add: example_db_def)
  with run calm single thr show ?thesis by blast
qed

text \<open>
  The claim as stated (the switch happens exactly when the total WAL size exceeds the
  threshold) fails in single-column-family mode: the size exceeds the threshold and
  \<open>PreprocessWrite\<close> returns without switching.
\<close>

theorem PreprocessWrite_no_switch_counterexample:
  "GetMaxTotalWalSize (example_db\<lparr>single_column_family_mode := True, total_log_size := 5000\<rparr>)
     < total_log_size (example_db\<lparr>single_column_family_mode := True, total_log_size := 5000\<rparr>) \<and>
   PreprocessWrite example_cfg example_env 0 example_options False
       (example_db\<lparr>single_column_family_mode := True, total_log_size := 5000\<rparr>) =
     Some (OK, False, example_db\<lparr>single_column_family_mode := True, total_log_size := 5000\<rparr>) \<and>
   EvSwitchWAL \<notin> set (new_events
       (example_db\<lparr>single_column_family_mode := True, total_log_size := 5000\<rparr>)
       (example_db\<lparr>single_column_family_mode := True, total_log_size := 5000\<rparr>))"
proof -
  let ?db = "example_db\<lparr>single_column_family_mode := True, total_log_size := 5000\<rparr>"
  have thr: "GetMaxTotalWalSize ?db < total_log_size ?db"
    by (simp add: GetMaxTotalWalSize_def example_db_def)
  have sw: "PreprocessWrite_switch_wal example_cfg example_env ?db = (OK, ?db)"
    by (simp add: PreprocessWrite_switch_wal_def example_env_def example_world_def)
  have run: "PreprocessWrite example_cfg example_env 0 example_options False ?db = Some (OK, False, ?db)"
    by (simp add: PreprocessWrite_def sw PreprocessWrite_flushes_def PreprocessWrite_delay_def
        PreprocessWrite_log_sync_def)
       (simp add: example_env_def example_world_def)
  from thr run show ?thesis by simp
qed

section \<open>Claim C1: sequences of the writers of a group\<close>



section \<open>Claim C2: when the pre-release callbacks run\<close>

text \<open>
  Claim C2.  Take the events that the leader of a write group adds to the log of the
  database, in the default path (\<open>WriteImpl_group\<close>, for a group whose writers are as their
  constructor left them and entered after a successful preprocessing) and in the WAL-only
  path (\<open>WriteImplWALOnly_group\<close>).  They split into three consecutive parts: a first part
  with no pre-release callback and no memtable insertion, which holds every WAL append of
  the group; the pre-release callbacks; and a last part with no pre-release callback and
  no WAL append, which holds every memtable insertion (there is none in the WAL-only
  path).  The callbacks are invoked in the order of the group (their positions increase),
  each with the sequence that its writer has been assigned, and when the WAL phase
  succeeded they are the calls that \<open>expected_calls\<close> lists: one for each writer with a
  pre-release callback whose pre-commit callback did not fail, up to the first callback
  that returns a status that is not OK.
\<close>

theorem pre_release_between_wal_and_memtable:
  "(list_all fresh grp \<and> grp \<noteq> [] \<and> ok pre_st \<and>
    WriteImpl_group cfg env wo dm nls nlds pre_st last_seq grp db = (ret, g', db') \<longrightarrow>
      (\<exists>wal prc rest. new_events db db' = wal @ prc @ rest \<and>
         \<not> list_ex is_pre_release wal \<and> \<not> list_ex is_memtable_event wal \<and>
         list_all is_pre_release prc \<and>
         \<not> list_ex is_pre_release rest \<and> \<not> list_ex is_AddRecord rest) \<and>
      sorted_wrt (<) (map fst (pre_release_calls (new_events db db'))) \<and>
      (\<forall>c \<in> set (pre_release_calls (new_events db db')).
         fst c < length g' \<and> snd c = sequence (g' ! fst c)) \<and>
      (ok (fst (snd (WriteImpl_commit cfg env wo dm nls nlds last_seq grp db))) \<longrightarrow>
         pre_release_calls (new_events db db') = expected_calls g' 0)) \<and>
   (grp \<noteq> [] \<and>
    WriteImplWALOnly_group cfg env wo ao pls dm grp db = (ret, g', db') \<longrightarrow>
      (\<exists>wal prc rest. new_events db db' = wal @ prc @ rest \<and>
         \<not> list_ex is_pre_release wal \<and> \<not> list_ex is_memtable_event wal \<and>
         list_all is_pre_release prc \<and>
         \<not> list_ex is_pre_release rest \<and> \<not> list_ex is_AddRecord rest) \<and>
      \<not> list_ex is_memtable_event (new_events db db') \<and>
      sorted_wrt (<) (map fst (pre_release_calls (new_events db db'))) \<and>
      (\<forall>c \<in> set (pre_release_calls (new_events db db')).
         fst c < length g' \<and> snd c = sequence (g' ! fst c)) \<and>
      (ok (wal_only_status cfg env wo) \<longrightarrow>
         pre_release_calls (new_events db db') = expected_calls g' 0))"
  (is "(?H1 \<longrightarrow> ?D1 \<and> ?S \<and> ?A \<and> ?E1) \<and> (?H2 \<longrightarrow> ?D2 \<and> ?M \<and> ?S2 \<and> ?A2 \<and> ?E2)")
proof (rule conjI; rule impI)
  assume a: ?H1
  then have fr: "list_all fresh grp" and ne: "grp \<noteq> []" and pre: "ok pre_st"
    and r: "WriteImpl_group cfg env wo dm nls nlds pre_st last_seq grp db = (ret, g', db')"
    by blast+
  from WriteImpl_group_order [OF fr ne pre r] obtain wal prc rest where
    e: "new_events db db' = wal @ prc @ rest"
    and k: "\<not> list_ex is_pre_release wal" "\<not> list_ex is_memtable_event wal"
      "list_all is_pre_release prc" "\<not> list_ex is_pre_release rest"
      "\<not> list_ex is_AddRecord rest"
    and pc: "pre_release_calls (new_events db db') = pre_release_calls prc"
    and calls: "pre_release_calls prc =
           (if ok (fst (snd (WriteImpl_commit cfg env wo dm nls nlds last_seq grp db)))
            then expected_calls g' 0 else [])"
    by blast
  from e k have d: ?D1 by blast
  have c: "pre_release_calls (new_events db db') = expected_calls g' 0 \<or>
      pre_release_calls (new_events db db') = []"
    unfolding pc calls by simp
  note o = calls_order [OF c]
  have e1: ?E1 unfolding pc calls by simp
  from d o e1 show "?D1 \<and> ?S \<and> ?A \<and> ?E1" by blast
next
  assume a: ?H2
  then have ne: "grp \<noteq> []"
    and r: "WriteImplWALOnly_group cfg env wo ao pls dm grp db = (ret, g', db')"
    by blast+
  from WriteImplWALOnly_group_order [OF ne r] obtain wal prc rest where
    e: "new_events db db' = wal @ prc @ rest"
    and k: "\<not> list_ex is_pre_release wal" "\<not> list_ex is_memtable_event wal"
      "list_all is_pre_release prc" "\<not> list_ex is_pre_release rest"
      "\<not> list_ex is_AddRecord rest"
    and rm: "\<not> list_ex is_memtable_event rest"
    and pc: "pre_release_calls (new_events db db') = pre_release_calls prc"
    and calls: "pre_release_calls prc =
           (if ok (wal_only_status cfg env wo) then expected_calls g' 0 else [])"
    by blast
  from e k have d: ?D2 by blast
  from pre_release_not_others [OF k(3)] have "\<not> list_ex is_memtable_event prc"
    by blast
  with k(2) rm have m: ?M unfolding e by simp
  have c: "pre_release_calls (new_events db db') = expected_calls g' 0 \<or>
      pre_release_calls (new_events db db') = []"
    unfolding pc calls by simp
  note o = calls_order [OF c]
  have e2: ?E2 unfolding pc calls by simp
  from d m o e2 show "?D2 \<and> ?M \<and> ?S2 \<and> ?A2 \<and> ?E2" by blast
qed

theorem pre_release_between_wal_and_memtable_witness:
  "list_all fresh [example_writer1, example_writer2, example_writer1] \<and>
   pre_release_calls (new_events example_db (snd (snd
     (WriteImpl_group example_cfg example_env example_options False False False OK 10
        [example_writer1, example_writer2, example_writer1] example_db)))) = [(0, 11), (2, 16)] \<and>
   pre_release_calls (new_events example_db (snd (snd
     (WriteImplWALOnly_group (example_cfg\<lparr>two_write_queues := True\<rparr>) example_env
        example_options True False True
        [example_writer1, example_writer2, example_writer1] example_db)))) = [(0, 11), (2, 13)] \<and>
   \<not> list_ex is_memtable_event (new_events example_db (snd (snd
     (WriteImplWALOnly_group (example_cfg\<lparr>two_write_queues := True\<rparr>) example_env
        example_options True False True
        [example_writer1, example_writer2, example_writer1] example_db))))"
proof -
  let ?g = "[example_writer1, example_writer2, example_writer1]"
  let ?cfg2 = "example_cfg\<lparr>two_write_queues := True\<rparr>"
  let ?c = "WriteImpl_commit example_cfg example_env example_options False False False 10 ?g example_db"
  let ?r = "WriteImpl_group example_cfg example_env example_options False False False OK 10 ?g example_db"
  let ?q = "WriteImplWALOnly_group ?cfg2 example_env example_options True False True ?g example_db"
  have fr: "list_all fresh ?g" by code_simp
  have ne: "?g \<noteq> []" by simp
  have io: "ok (fst (snd ?c))" by code_simp
  have x1: "expected_calls (fst (snd ?r)) 0 = [(0, 11), (2, 16)]" by code_simp
  have io2: "ok (wal_only_status ?cfg2 example_env example_options)" by code_simp
  have x2: "expected_calls (fst (snd ?q)) 0 = [(0, 11), (2, 13)]" by code_simp
  have h1: "list_all fresh ?g \<and> ?g \<noteq> [] \<and> ok OK \<and> ?r = (fst ?r, fst (snd ?r), snd (snd ?r))"
    using fr ne ok_OK three_tuple [of ?r] by blast
  have h2: "?g \<noteq> [] \<and> ?q = (fst ?q, fst (snd ?q), snd (snd ?q))"
    using ne three_tuple [of ?q] by blast
  note t1 = pre_release_between_wal_and_memtable [where grp = ?g and pre_st = OK
      and cfg = example_cfg and env = example_env and wo = example_options and dm = False
      and nls = False and nlds = False and last_seq = 10 and db = example_db
      and ret = "fst ?r" and g' = "fst (snd ?r)" and db' = "snd (snd ?r)", THEN conjunct1,
      rule_format, OF h1]
  note t2 = pre_release_between_wal_and_memtable [where grp = ?g
      and cfg = ?cfg2 and env = example_env and wo = example_options and dm = True
      and ao = True and pls = False and db = example_db
      and ret = "fst ?q" and g' = "fst (snd ?q)" and db' = "snd (snd ?q)", THEN conjunct2,
      rule_format, OF h2]
  from t1 io have "pre_release_calls (new_events example_db (snd (snd ?r))) =
      expected_calls (fst (snd ?r)) 0" by blast
  then have q1: "pre_release_calls (new_events example_db (snd (snd ?r))) = [(0, 11), (2, 16)]"
    unfolding x1 .
  from t2 io2 have "pre_release_calls (new_events example_db (snd (snd ?q))) =
      expected_calls (fst (snd ?q)) 0" by blast
  then have q2: "pre_release_calls (new_events example_db (snd (snd ?q))) = [(0, 11), (2, 13)]"
    unfolding x2 .
  from t2 have q3: "\<not> list_ex is_memtable_event (new_events example_db (snd (snd ?q)))"
    by blast
  show ?thesis
    apply (intro conjI)
       apply (rule fr)
      apply (rule q1)
     apply (rule q2)
    apply (rule q3)
    done
qed
section \<open>Claim C10: sequences are consumed when the WAL is disabled\<close>

text \<open>
  Claim C10.  With \<open>disableWAL\<close> set, a group leader adds no WAL append to the log of
  events, and the last allocated sequence still advances by the sequence increment of the
  group: in the default path with two write queues (for a group whose writers are as their
  constructor left them, entered after a successful preprocessing) by \<open>group_seq_inc\<close>,
  the total record count or the total batch count under \<open>seq_per_batch\<close>; in the WAL-only
  path by \<open>wal_only_seq_inc\<close>, the total batch count when the order is assigned and zero
  otherwise.
\<close>

theorem disable_wal_still_consumes_sequences:
  "(list_all fresh grp \<and> grp \<noteq> [] \<and> ok pre_st \<and> two_write_queues cfg \<and> disableWAL wo \<and>
    WriteImpl_group cfg env wo dm nls nlds pre_st last_seq grp db = (ret, g', db') \<longrightarrow>
      last_allocated_sequence db' = last_allocated_sequence db + group_seq_inc cfg grp \<and>
      \<not> list_ex is_AddRecord (new_events db db')) \<and>
   (grp \<noteq> [] \<and> disableWAL wo \<and>
    WriteImplWALOnly_group cfg env wo ao pls dm grp db = (ret, g', db') \<longrightarrow>
      last_allocated_sequence db' = last_allocated_sequence db + wal_only_seq_inc ao grp \<and>
      \<not> list_ex is_AddRecord (new_events db db'))"
  (is "(?H1 \<longrightarrow> ?C1) \<and> (?H2 \<longrightarrow> ?C2)")
proof (rule conjI; rule impI)
  assume ?H1
  then have fr: "list_all fresh grp" and ne: "grp \<noteq> []" and pre: "ok pre_st"
    and tq: "two_write_queues cfg" and dw: "disableWAL wo"
    and r: "WriteImpl_group cfg env wo dm nls nlds pre_st last_seq grp db = (ret, g', db')"
    by blast+
  note d = WriteImpl_group_disable_wal [OF fr ne pre dw r]
  from d(1) tq have "last_allocated_sequence db' =
      last_allocated_sequence db + group_seq_inc cfg grp" by simp
  with d(2) show ?C1 by blast
next
  assume ?H2
  then have ne: "grp \<noteq> []" and dw: "disableWAL wo"
    and r: "WriteImplWALOnly_group cfg env wo ao pls dm grp db = (ret, g', db')"
    by blast+
  note d = WriteImplWALOnly_group_disable_wal [OF ne dw r]
  from d show ?C2 by blast
qed

theorem disable_wal_still_consumes_sequences_witness:
  "list_all fresh [example_writer1, example_writer2] \<and>
   group_seq_inc (example_cfg\<lparr>two_write_queues := True\<rparr>) [example_writer1, example_writer2] = 5 \<and>
   last_allocated_sequence example_db = 10 \<and>
   last_allocated_sequence (snd (snd
     (WriteImpl_group (example_cfg\<lparr>two_write_queues := True\<rparr>) example_env
        (example_options\<lparr>disableWAL := True\<rparr>) False False False OK 10
        [example_writer1, example_writer2] example_db))) = 15 \<and>
   \<not> list_ex is_AddRecord (new_events example_db (snd (snd
     (WriteImpl_group (example_cfg\<lparr>two_write_queues := True\<rparr>) example_env
        (example_options\<lparr>disableWAL := True\<rparr>) False False False OK 10
        [example_writer1, example_writer2] example_db)))) \<and>
   wal_only_seq_inc True [example_writer1, example_writer2] = 2 \<and>
   last_allocated_sequence (snd (snd
     (WriteImplWALOnly_group (example_cfg\<lparr>two_write_queues := True\<rparr>) example_env
        (example_options\<lparr>disableWAL := True\<rparr>) True False True
        [example_writer1, example_writer2] example_db))) = 12 \<and>
   \<not> list_ex is_AddRecord (new_events example_db (snd (snd
     (WriteImplWALOnly_group (example_cfg\<lparr>two_write_queues := True\<rparr>) example_env
        (example_options\<lparr>disableWAL := True\<rparr>) True False True
        [example_writer1, example_writer2] example_db))))"
proof -
  let ?g = "[example_writer1, example_writer2]"
  let ?cfg2 = "example_cfg\<lparr>two_write_queues := True\<rparr>"
  let ?wo = "example_options\<lparr>disableWAL := True\<rparr>"
  let ?r = "WriteImpl_group ?cfg2 example_env ?wo False False False OK 10 ?g example_db"
  let ?q = "WriteImplWALOnly_group ?cfg2 example_env ?wo True False True ?g example_db"
  have fr: "list_all fresh ?g" by code_simp
  have ne: "?g \<noteq> []" by simp
  have tq: "two_write_queues ?cfg2" by simp
  have dw: "disableWAL ?wo" by simp
  have i1: "group_seq_inc ?cfg2 ?g = 5" by code_simp
  have i2: "wal_only_seq_inc True ?g = 2" by code_simp
  have l0: "last_allocated_sequence example_db = 10" by code_simp
  have h1: "list_all fresh ?g \<and> ?g \<noteq> [] \<and> ok OK \<and> two_write_queues ?cfg2 \<and> disableWAL ?wo \<and>
      ?r = (fst ?r, fst (snd ?r), snd (snd ?r))"
    using fr ne ok_OK tq dw three_tuple [of ?r] by blast
  have h2: "?g \<noteq> [] \<and> disableWAL ?wo \<and> ?q = (fst ?q, fst (snd ?q), snd (snd ?q))"
    using ne dw three_tuple [of ?q] by blast
  note t1 = disable_wal_still_consumes_sequences [where grp = ?g and pre_st = OK
      and cfg = ?cfg2 and env = example_env and wo = ?wo and dm = False
      and nls = False and nlds = False and last_seq = 10 and db = example_db
      and ret = "fst ?r" and g' = "fst (snd ?r)" and db' = "snd (snd ?r)", THEN conjunct1,
      rule_format, OF h1]
  note t2 = disable_wal_still_consumes_sequences [where grp = ?g
      and cfg = ?cfg2 and env = example_env and wo = ?wo and dm = True
      and ao = True and pls = False and db = example_db
      and ret = "fst ?q" and g' = "fst (snd ?q)" and db' = "snd (snd ?q)", THEN conjunct2,
      rule_format, OF h2]
  from t1 have "last_allocated_sequence (snd (snd ?r)) =
      last_allocated_sequence example_db + group_seq_inc ?cfg2 ?g" by (rule conjunct1)
  then have q1: "last_allocated_sequence (snd (snd ?r)) = 15" unfolding i1 l0 by simp
  from t1 have q2: "\<not> list_ex is_AddRecord (new_events example_db (snd (snd ?r)))"
    by (rule conjunct2)
  from t2 have "last_allocated_sequence (snd (snd ?q)) =
      last_allocated_sequence example_db + wal_only_seq_inc True ?g" by (rule conjunct1)
  then have q3: "last_allocated_sequence (snd (snd ?q)) = 12" unfolding i2 l0 by simp
  from t2 have q4: "\<not> list_ex is_AddRecord (new_events example_db (snd (snd ?q)))"
    by (rule conjunct2)
  show ?thesis
    apply (intro conjI)
           apply (rule fr)
          apply (rule i1)
         apply (rule l0)
        apply (rule q1)
       apply (rule q2)
      apply (rule i2)
     apply (rule q3)
    apply (rule q4)
    done
qed
section \<open>Claim C7: a failed WAL write\<close>



section \<open>Claim C3: the checks at the entry of \<open>WriteImpl\<close>\<close>

text \<open>
  Claim C3.  \<open>WriteImpl\<close> checks its arguments in this order.  A null batch returns
  \<open>Corruption\<close> and leaves the database as it was.  Otherwise \<open>sync\<close> together with
  \<open>disableWAL\<close> returns \<open>InvalidArgument\<close>.  Otherwise \<open>enable_pipelined_write\<close>
  together with two write queues, \<open>seq_per_batch\<close> or \<open>unordered_write\<close> returns
  \<open>NotSupported\<close>.  In each case the call returns whatever the fuel, no writer is created,
  the only event that may have been added is the write to the tracer (so the writer has
  joined no queue), and the last sequence and the last allocated sequence are unchanged.
\<close>

theorem WriteImpl_validation:
  "(my_batch = None \<longrightarrow>
      WriteImpl cfg env fuel wo my_batch cb lref dm bcnt prc db0 =
        Some (Corruption ''Batch is nullptr!'', [], db0)) \<and>
   (my_batch \<noteq> None \<and> sync wo \<and> disableWAL wo \<longrightarrow>
      (\<exists>db. WriteImpl cfg env fuel wo my_batch cb lref dm bcnt prc db0 =
             Some (InvalidArgument ''Sync writes has to enable WAL.'', [], db) \<and>
           set (new_events db0 db) \<subseteq> {EvTracerWrite} \<and>
           last_sequence db = last_sequence db0 \<and>
           last_allocated_sequence db = last_allocated_sequence db0)) \<and>
   (my_batch \<noteq> None \<and> \<not> (sync wo \<and> disableWAL wo) \<and> enable_pipelined_write cfg \<and>
    (two_write_queues cfg \<or> seq_per_batch cfg \<or> unordered_write cfg) \<longrightarrow>
      (\<exists>st db. WriteImpl cfg env fuel wo my_batch cb lref dm bcnt prc db0 = Some (st, [], db) \<and>
           code st = kNotSupported \<and>
           set (new_events db0 db) \<subseteq> {EvTracerWrite} \<and>
           last_sequence db = last_sequence db0 \<and>
           last_allocated_sequence db = last_allocated_sequence db0))"
  (is "?A \<and> ?B \<and> ?C")
proof -
  define db where "db = (if tracer db0 then emit [EvTracerWrite] db0 else db0)"
  have q: "set (new_events db0 db) \<subseteq> {EvTracerWrite}"
    "last_sequence db = last_sequence db0"
    "last_allocated_sequence db = last_allocated_sequence db0"
    unfolding db_def by simp_all
  have A: ?A by (simp add: WriteImpl_def)
  have B: ?B
  proof (rule impI)
    assume h: "my_batch \<noteq> None \<and> sync wo \<and> disableWAL wo"
    then obtain b where b: "my_batch = Some b" by auto
    from h have "WriteImpl cfg env fuel wo my_batch cb lref dm bcnt prc db0 =
        Some (InvalidArgument ''Sync writes has to enable WAL.'', [], db)"
      unfolding WriteImpl_def b db_def by (simp add: Let_def)
    with q show "\<exists>db. WriteImpl cfg env fuel wo my_batch cb lref dm bcnt prc db0 =
             Some (InvalidArgument ''Sync writes has to enable WAL.'', [], db) \<and>
           set (new_events db0 db) \<subseteq> {EvTracerWrite} \<and>
           last_sequence db = last_sequence db0 \<and>
           last_allocated_sequence db = last_allocated_sequence db0"
      by blast
  qed
  have C: ?C
  proof (rule impI)
    assume h: "my_batch \<noteq> None \<and> \<not> (sync wo \<and> disableWAL wo) \<and> enable_pipelined_write cfg \<and>
      (two_write_queues cfg \<or> seq_per_batch cfg \<or> unordered_write cfg)"
    then obtain b where b: "my_batch = Some b" by auto
    define st where "st =
      (if two_write_queues cfg
       then NotSupported ''pipelined_writes is not compatible with concurrent prepares''
       else if seq_per_batch cfg
       then NotSupported ''pipelined_writes is not compatible with seq_per_batch''
       else NotSupported ''pipelined_writes is not compatible with unordered_write'')"
    have c: "code st = kNotSupported"
      unfolding st_def by (simp add: NotSupported_def)
    from h have "WriteImpl cfg env fuel wo my_batch cb lref dm bcnt prc db0 = Some (st, [], db)"
      unfolding WriteImpl_def b db_def st_def by (auto simp: Let_def)
    with c q show "\<exists>st db. WriteImpl cfg env fuel wo my_batch cb lref dm bcnt prc db0 =
             Some (st, [], db) \<and> code st = kNotSupported \<and>
           set (new_events db0 db) \<subseteq> {EvTracerWrite} \<and>
           last_sequence db = last_sequence db0 \<and>
           last_allocated_sequence db = last_allocated_sequence db0"
      by blast
  qed
  show ?thesis by (rule conjI [OF A conjI [OF B C]])
qed

theorem WriteImpl_validation_witness:
  "WriteImpl example_cfg example_env 0 example_options None None 0 False 0 None example_db =
     Some (Corruption ''Batch is nullptr!'', [], example_db) \<and>
   sync (example_options\<lparr>sync := True, disableWAL := True\<rparr>) \<and>
   disableWAL (example_options\<lparr>sync := True, disableWAL := True\<rparr>) \<and>
   map_option fst (WriteImpl example_cfg example_env 0
       (example_options\<lparr>sync := True, disableWAL := True\<rparr>) (Some example_batch2) None 0 False 0
       None example_db) =
     Some (InvalidArgument ''Sync writes has to enable WAL.'') \<and>
   enable_pipelined_write (example_cfg\<lparr>enable_pipelined_write := True, unordered_write := True\<rparr>) \<and>
   unordered_write (example_cfg\<lparr>enable_pipelined_write := True, unordered_write := True\<rparr>) \<and>
   map_option (\<lambda>r. code (fst r))
     (WriteImpl (example_cfg\<lparr>enable_pipelined_write := True, unordered_write := True\<rparr>)
        example_env 0 example_options (Some example_batch2) None 0 False 0 None example_db) =
     Some kNotSupported"
proof -
  let ?wo = "example_options\<lparr>sync := True, disableWAL := True\<rparr>"
  let ?cfg = "example_cfg\<lparr>enable_pipelined_write := True, unordered_write := True\<rparr>"
  have s: "sync ?wo" "disableWAL ?wo" by simp_all
  have n: "\<not> (sync example_options \<and> disableWAL example_options)" by code_simp
  have p: "enable_pipelined_write ?cfg" "unordered_write ?cfg" by simp_all
  have sm: "Some example_batch2 \<noteq> None" by simp
  note t1 = WriteImpl_validation [where my_batch = None and cfg = example_cfg
      and env = example_env and fuel = 0 and wo = example_options and cb = None and lref = 0
      and dm = False and bcnt = 0 and prc = None and ?db0.0 = example_db,
      THEN conjunct1, rule_format, OF refl]
  have h2: "Some example_batch2 \<noteq> None \<and> sync ?wo \<and> disableWAL ?wo"
    using sm s by blast
  note t2 = WriteImpl_validation [where my_batch = "Some example_batch2" and cfg = example_cfg
      and env = example_env and fuel = 0 and wo = ?wo and cb = None and lref = 0
      and dm = False and bcnt = 0 and prc = None and ?db0.0 = example_db,
      THEN conjunct2, THEN conjunct1, rule_format, OF h2]
  have h3: "Some example_batch2 \<noteq> None \<and> \<not> (sync example_options \<and> disableWAL example_options) \<and>
      enable_pipelined_write ?cfg \<and>
      (two_write_queues ?cfg \<or> seq_per_batch ?cfg \<or> unordered_write ?cfg)"
    using sm n p by blast
  note t3 = WriteImpl_validation [where my_batch = "Some example_batch2" and cfg = ?cfg
      and env = example_env and fuel = 0 and wo = example_options and cb = None and lref = 0
      and dm = False and bcnt = 0 and prc = None and ?db0.0 = example_db,
      THEN conjunct2, THEN conjunct2, rule_format, OF h3]
  from t2 obtain db where "WriteImpl example_cfg example_env 0 ?wo (Some example_batch2) None 0
      False 0 None example_db = Some (InvalidArgument ''Sync writes has to enable WAL.'', [], db)"
    by blast
  then have q2: "map_option fst (WriteImpl example_cfg example_env 0 ?wo (Some example_batch2)
      None 0 False 0 None example_db) = Some (InvalidArgument ''Sync writes has to enable WAL.'')"
    by simp
  from t3 obtain st db where "WriteImpl ?cfg example_env 0 example_options (Some example_batch2)
      None 0 False 0 None example_db = Some (st, [], db)" and "code st = kNotSupported"
    by blast
  then have q3: "map_option (\<lambda>r. code (fst r)) (WriteImpl ?cfg example_env 0 example_options
      (Some example_batch2) None 0 False 0 None example_db) = Some kNotSupported"
    by simp
  show ?thesis
    apply (intro conjI)
          apply (rule t1)
         apply (rule s(1))
        apply (rule s(2))
       apply (rule q2)
      apply (rule p(1))
     apply (rule p(2))
    apply (rule q3)
    done
qed
section \<open>Claim C4: the batch that goes to the WAL\<close>

text \<open>
  Claim C4, as amended.  \<open>WriteToWAL\<close> and \<open>ConcurrentWriteToWAL\<close> append one record for
  the group, stamped with the sequence they are given (the last allocated sequence plus one
  in the concurrent variant).  When the group has exactly one writer, the pre-commit
  callback of that writer did not fail and its batch has no WAL termination point, the
  record is that writer's batch, stamped in place: the writer's batch is the stamped
  batch afterwards, and the scratch batch is not touched.  For every other group the record
  is the scratch batch, to which the contents (up to the termination point, if there is
  one) and the record counts of exactly the writers whose pre-commit callback did not fail
  have been appended in the order of the group (\<open>merged_rep\<close>, \<open>merged_count\<close>); the
  batches of the writers are unchanged, and \<open>WriteToWAL\<close> clears the scratch batch of the
  database afterwards.
\<close>

theorem WAL_append_in_place_or_scratch:
  "(WriteToWAL env grp nls nlds s db = (io_s, g', db') \<longrightarrow>
      (\<exists>r es. new_events db db' = EvAddRecord r # es \<and> \<not> list_ex is_AddRecord es \<and>
         batch_sequence r = s \<and>
         (if length grp = 1 \<and> \<not> CallbackFailed (hd grp) \<and>
             WalTerminationPoint (batch (hd grp)) = None
          then r = SetSequence (batch (hd grp)) s \<and> batch (hd g') = r \<and>
               tmp_batch db' = tmp_batch db
          else rep r = rep (tmp_batch db) @ merged_rep grp \<and>
               batch_count r = batch_count (tmp_batch db) + merged_count grp \<and>
               map batch g' = map batch grp \<and> tmp_batch db' = Clear))) \<and>
   (ConcurrentWriteToWAL env grp seq_inc db = (io_s, last0, g', db') \<longrightarrow>
      (\<exists>r. new_events db db' = [EvAddRecord r] \<and>
         batch_sequence r = last_allocated_sequence db + 1 \<and>
         (if length grp = 1 \<and> \<not> CallbackFailed (hd grp) \<and>
             WalTerminationPoint (batch (hd grp)) = None
          then r = SetSequence (batch (hd grp)) (last_allocated_sequence db + 1) \<and>
               batch (hd g') = r
          else rep r = merged_rep grp \<and> batch_count r = merged_count grp \<and>
               map batch g' = map batch grp)))"
  (is "(?H1 \<longrightarrow> ?C1) \<and> (?H2 \<longrightarrow> ?C2)")
proof -
  have I1: "?H1 \<longrightarrow> ?C1"
  proof (rule impI)
    assume r: ?H1
    obtain ip m n c where mb: "MergeBatch grp (tmp_batch db) = (ip, m, n, c)"
      by (cases "MergeBatch grp (tmp_batch db)")
    note w = WriteToWAL_record [OF r mb]
    from w(1) obtain es where
      e: "new_events db db' = EvAddRecord (SetSequence m s) # es" "\<not> list_ex is_AddRecord es"
      by blast
    note mr = merged_record [OF mb w(2)]
    from MergeBatch_cases(1) [OF mb]
    have ip: "ip \<longleftrightarrow> length grp = 1 \<and> \<not> CallbackFailed (hd grp) \<and>
        WalTerminationPoint (batch (hd grp)) = None" .
    have "batch_sequence (SetSequence m s) = s \<and>
         (if length grp = 1 \<and> \<not> CallbackFailed (hd grp) \<and>
             WalTerminationPoint (batch (hd grp)) = None
          then SetSequence m s = SetSequence (batch (hd grp)) s \<and>
               batch (hd g') = SetSequence m s \<and> tmp_batch db' = tmp_batch db
          else rep (SetSequence m s) = rep (tmp_batch db) @ merged_rep grp \<and>
               batch_count (SetSequence m s) = batch_count (tmp_batch db) + merged_count grp \<and>
               map batch g' = map batch grp \<and> tmp_batch db' = Clear)"
    proof (cases ip)
      case True
      with ip have c: "length grp = 1 \<and> \<not> CallbackFailed (hd grp) \<and>
        WalTerminationPoint (batch (hd grp)) = None" by blast
      from w(3) True have t: "tmp_batch db' = tmp_batch db" by simp
      from mr t show ?thesis unfolding if_P [OF c] by blast
    next
      case False
      with ip have c: "\<not> (length grp = 1 \<and> \<not> CallbackFailed (hd grp) \<and>
        WalTerminationPoint (batch (hd grp)) = None)" by blast
      from w(3) False have t: "tmp_batch db' = Clear" by simp
      from mr t show ?thesis unfolding if_not_P [OF c] by blast
    qed
    with e show ?C1 by blast
  qed
  have I2: "?H2 \<longrightarrow> ?C2"
  proof (rule impI)
    assume r: ?H2
    obtain ip m n c where mb: "MergeBatch grp Clear = (ip, m, n, c)"
      by (cases "MergeBatch grp Clear")
    note w = ConcurrentWriteToWAL_record [OF r mb]
    note mr = merged_record [OF mb w(2)]
    have cl: "rep Clear = []" "batch_count Clear = 0" by (simp_all add: Clear_def)
    have "batch_sequence (SetSequence m (last_allocated_sequence db + 1)) =
           last_allocated_sequence db + 1 \<and>
         (if length grp = 1 \<and> \<not> CallbackFailed (hd grp) \<and>
             WalTerminationPoint (batch (hd grp)) = None
          then SetSequence m (last_allocated_sequence db + 1) =
                 SetSequence (batch (hd grp)) (last_allocated_sequence db + 1) \<and>
               batch (hd g') = SetSequence m (last_allocated_sequence db + 1)
          else rep (SetSequence m (last_allocated_sequence db + 1)) = merged_rep grp \<and>
               batch_count (SetSequence m (last_allocated_sequence db + 1)) = merged_count grp \<and>
               map batch g' = map batch grp)"
      using mr unfolding cl append_Nil add_0 .
    with w(1) show ?C2 by blast
  qed
  show ?thesis by (rule conjI [OF I1 I2])
qed

theorem WAL_append_in_place_or_scratch_witness:
  "hd (new_events example_db (snd (snd
       (WriteToWAL example_env [checked example_writer1] False False 11 example_db)))) =
     EvAddRecord (SetSequence example_batch2 11) \<and>
   batch (hd (fst (snd
       (WriteToWAL example_env [checked example_writer1] False False 11 example_db)))) =
     SetSequence example_batch2 11 \<and>
   CallbackFailed (checked example_writer_rejected) \<and>
   (\<exists>r. hd (new_events example_db (snd (snd
       (WriteToWAL example_env
          (map checked [example_writer1, example_writer_rejected, example_writer2])
          False False 11 example_db)))) = EvAddRecord r \<and>
      batch_sequence r = 11 \<and> rep r = ''k1v1k2v2abcdef'' \<and> batch_count r = 5) \<and>
   (\<exists>r. new_events example_db (snd (snd (snd
       (ConcurrentWriteToWAL example_env
          (map checked [example_writer1, example_writer_rejected, example_writer2])
          5 example_db)))) = [EvAddRecord r] \<and>
      batch_sequence r = 11 \<and> rep r = ''k1v1k2v2abcdef'' \<and> batch_count r = 5)"
proof -
  let ?g1 = "[checked example_writer1]"
  let ?g = "map checked [example_writer1, example_writer_rejected, example_writer2]"
  let ?a = "WriteToWAL example_env ?g1 False False 11 example_db"
  let ?b = "WriteToWAL example_env ?g False False 11 example_db"
  let ?c = "ConcurrentWriteToWAL example_env ?g 5 example_db"
  have c1: "length ?g1 = 1 \<and> \<not> CallbackFailed (hd ?g1) \<and>
      WalTerminationPoint (batch (hd ?g1)) = None"
    by code_simp
  have c3: "\<not> (length ?g = 1 \<and> \<not> CallbackFailed (hd ?g) \<and>
      WalTerminationPoint (batch (hd ?g)) = None)"
    by simp
  have b1: "batch (hd ?g1) = example_batch2" by code_simp
  have cf: "CallbackFailed (checked example_writer_rejected)" by code_simp
  have m: "rep (tmp_batch example_db) = []" "batch_count (tmp_batch example_db) = 0"
    "merged_rep ?g = ''k1v1k2v2abcdef''" "merged_count ?g = 5"
    "last_allocated_sequence example_db + 1 = 11"
    by code_simp+
  note t1 = WAL_append_in_place_or_scratch [where env = example_env and grp = ?g1
      and nls = False and nlds = False and s = 11 and db = example_db
      and io_s = "fst ?a" and g' = "fst (snd ?a)" and db' = "snd (snd ?a)",
      THEN conjunct1, rule_format, OF three_tuple, unfolded if_P [OF c1]]
  note t2 = WAL_append_in_place_or_scratch [where env = example_env and grp = ?g
      and nls = False and nlds = False and s = 11 and db = example_db
      and io_s = "fst ?b" and g' = "fst (snd ?b)" and db' = "snd (snd ?b)",
      THEN conjunct1, rule_format, OF three_tuple, unfolded if_not_P [OF c3]]
  have four: "?c = (fst ?c, fst (snd ?c), fst (snd (snd ?c)), snd (snd (snd ?c)))" by simp
  note t3 = WAL_append_in_place_or_scratch [where env = example_env and grp = ?g
      and seq_inc = 5 and db = example_db
      and io_s = "fst ?c" and ?last0.0 = "fst (snd ?c)" and g' = "fst (snd (snd ?c))"
      and db' = "snd (snd (snd ?c))",
      THEN conjunct2, rule_format, OF four, unfolded if_not_P [OF c3]]
  from t1 obtain r es where
    "new_events example_db (snd (snd ?a)) = EvAddRecord r # es"
    "r = SetSequence (batch (hd ?g1)) 11" "batch (hd (fst (snd ?a))) = r"
    by blast
  then have q1: "hd (new_events example_db (snd (snd ?a))) =
      EvAddRecord (SetSequence example_batch2 11)"
    and q2: "batch (hd (fst (snd ?a))) = SetSequence example_batch2 11"
    unfolding b1 by simp_all
  from t2 obtain r es where
    "new_events example_db (snd (snd ?b)) = EvAddRecord r # es"
    "batch_sequence r = 11" "rep r = rep (tmp_batch example_db) @ merged_rep ?g"
    "batch_count r = batch_count (tmp_batch example_db) + merged_count ?g"
    by blast
  then have "hd (new_events example_db (snd (snd ?b))) = EvAddRecord r \<and>
      batch_sequence r = 11 \<and> rep r = ''k1v1k2v2abcdef'' \<and> batch_count r = 5"
    unfolding m by simp
  then have q3: "\<exists>r. hd (new_events example_db (snd (snd ?b))) = EvAddRecord r \<and>
      batch_sequence r = 11 \<and> rep r = ''k1v1k2v2abcdef'' \<and> batch_count r = 5"
    by (rule exI)
  from t3 obtain r where "new_events example_db (snd (snd (snd ?c))) = [EvAddRecord r]"
    "batch_sequence r = last_allocated_sequence example_db + 1"
    "rep r = merged_rep ?g" "batch_count r = merged_count ?g"
    by blast
  then have "new_events example_db (snd (snd (snd ?c))) = [EvAddRecord r] \<and>
      batch_sequence r = 11 \<and> rep r = ''k1v1k2v2abcdef'' \<and> batch_count r = 5"
    unfolding m by simp
  then have q4: "\<exists>r. new_events example_db (snd (snd (snd ?c))) = [EvAddRecord r] \<and>
      batch_sequence r = 11 \<and> rep r = ''k1v1k2v2abcdef'' \<and> batch_count r = 5"
    by (rule exI)
  show ?thesis
    apply (intro conjI)
        apply (rule q1)
       apply (rule q2)
      apply (rule cf)
     apply (rule q3)
    apply (rule q4)
    done
qed

text \<open>
  The claim as stated fails for a group of one writer whose pre-commit callback failed and
  whose batch has no WAL termination point: \<open>MergeBatch\<close> also asks that the callback of
  the leader did not fail, so the record that is appended is the empty scratch batch, and
  the writer's batch is neither appended nor stamped.
\<close>

theorem WAL_append_single_failed_writer_counterexample:
  "length [checked example_writer_rejected] = 1 \<and>
   WalTerminationPoint (batch (hd [checked example_writer_rejected])) = None \<and>
   CallbackFailed (checked example_writer_rejected) \<and>
   new_events example_db (snd (snd
     (WriteToWAL example_env [checked example_writer_rejected] False False 11 example_db))) =
     [EvAddRecord (SetSequence Clear 11)] \<and>
   rep (SetSequence Clear 11) = [] \<and>
   rep (batch (checked example_writer_rejected)) = ''k1v1k2v2'' \<and>
   batch (hd (fst (snd
     (WriteToWAL example_env [checked example_writer_rejected] False False 11 example_db)))) =
     example_batch2 \<and>
   batch_sequence example_batch2 = 0 \<and>
   filter is_AddRecord (new_events example_db (snd (snd
     (WriteImpl_group example_cfg example_env example_options False False False OK 10
        [example_writer_rejected] example_db)))) = [EvAddRecord (SetSequence Clear 11)]"
  by code_simp
section \<open>Claim C5: \<open>DelayWrite\<close>\<close>



end
